theory Spec2Isabelle
  imports Complex_Main "HOL-Library.Word"
begin

unbundle bit_operations_syntax

section \<open>hotkey.cpp: modifier flags and the listener's private state\<close>

text \<open>
  The anonymous enum of hotkey.cpp: \<^verbatim>\<open>MOD_CTRL = 1 << 0\<close>, \<^verbatim>\<open>MOD_SHIFT = 1 << 1\<close>,
  \<^verbatim>\<open>MOD_ALT = 1 << 2\<close>, \<^verbatim>\<open>MOD_SUPER = 1 << 3\<close>. The mask they are combined into is an
  \<^verbatim>\<open>unsigned int\<close>, a 32-bit word.
\<close>

definition MOD_CTRL :: "32 word" where "MOD_CTRL = push_bit 0 1"
definition MOD_SHIFT :: "32 word" where "MOD_SHIFT = push_bit 1 1"
definition MOD_ALT :: "32 word" where "MOD_ALT = push_bit 2 1"
definition MOD_SUPER :: "32 word" where "MOD_SUPER = push_bit 3 1"

text \<open>\<^verbatim>\<open>struct HotkeyListener::Impl\<close>: the open descriptors, the parsed hotkey and the eight
  modifier booleans.\<close>

record Impl =
  fds :: "int list"
  key_code :: int
  modmask :: "32 word"
  ctrl_l :: bool
  ctrl_r :: bool
  shift_l :: bool
  shift_r :: bool
  alt_l :: bool
  alt_r :: bool
  super_l :: bool
  super_r :: bool

text \<open>The default member initialisers of \<^verbatim>\<open>Impl\<close>.\<close>

definition Impl_init :: Impl where
  "Impl_init = \<lparr> fds = [], key_code = 0, modmask = 0,
     ctrl_l = False, ctrl_r = False, shift_l = False, shift_r = False,
     alt_l = False, alt_r = False, super_l = False, super_r = False \<rparr>"

text \<open>\<^verbatim>\<open>Impl::mods_match\<close>, with its eight early returns in the source's order.\<close>

definition mods_match :: "Impl \<Rightarrow> bool" where
  "mods_match m =
    (let ctrl = (ctrl_l m \<or> ctrl_r m);
         shift = (shift_l m \<or> shift_r m);
         alt = (alt_l m \<or> alt_r m);
         super = (super_l m \<or> super_r m)
     in if (modmask m AND MOD_CTRL) \<noteq> 0 \<and> \<not> ctrl then False
        else if (modmask m AND MOD_SHIFT) \<noteq> 0 \<and> \<not> shift then False
        else if (modmask m AND MOD_ALT) \<noteq> 0 \<and> \<not> alt then False
        else if (modmask m AND MOD_SUPER) \<noteq> 0 \<and> \<not> super then False
        else if \<not> ((modmask m AND MOD_CTRL) \<noteq> 0) \<and> ctrl then False
        else if \<not> ((modmask m AND MOD_SHIFT) \<noteq> 0) \<and> shift then False
        else if \<not> ((modmask m AND MOD_ALT) \<noteq> 0) \<and> alt then False
        else if \<not> ((modmask m AND MOD_SUPER) \<noteq> 0) \<and> super then False
        else True)"

text \<open>The logical (left OR right) modifiers that are held, as a mask over the same four bits.
  This is the set M of the exact-match property; it is not a function of the source.\<close>

definition held_mask :: "Impl \<Rightarrow> 32 word" where
  "held_mask m =
     (if ctrl_l m \<or> ctrl_r m then MOD_CTRL else 0) OR
     (if shift_l m \<or> shift_r m then MOD_SHIFT else 0) OR
     (if alt_l m \<or> alt_r m then MOD_ALT else 0) OR
     (if super_l m \<or> super_r m then MOD_SUPER else 0)"

section \<open>hotkey.cpp: key codes\<close>

text \<open>
  The key codes come from the kernel header \<^verbatim>\<open>linux/input-event-codes.h\<close>, which
  hotkey.cpp includes and which is not among the sources. The values below are the header's;
  the source itself records \<^verbatim>\<open>KEY_A = 30\<close>, \<^verbatim>\<open>KEY_F1..KEY_F10 = 59..68\<close>,
  \<^verbatim>\<open>KEY_F11 = 87\<close> and \<^verbatim>\<open>KEY_F12 = 88\<close> in its comments and asserts
  \<^verbatim>\<open>KEY_F1 + 9 == KEY_F10\<close>.
\<close>

definition EV_KEY :: nat where "EV_KEY = 1"

definition KEY_ESC :: int where "KEY_ESC = 1"
definition KEY_1 :: int where "KEY_1 = 2"
definition KEY_0 :: int where "KEY_0 = 11"
definition KEY_MINUS :: int where "KEY_MINUS = 12"
definition KEY_EQUAL :: int where "KEY_EQUAL = 13"
definition KEY_BACKSPACE :: int where "KEY_BACKSPACE = 14"
definition KEY_TAB :: int where "KEY_TAB = 15"
definition KEY_Q :: int where "KEY_Q = 16"
definition KEY_W :: int where "KEY_W = 17"
definition KEY_E :: int where "KEY_E = 18"
definition KEY_R :: int where "KEY_R = 19"
definition KEY_T :: int where "KEY_T = 20"
definition KEY_Y :: int where "KEY_Y = 21"
definition KEY_U :: int where "KEY_U = 22"
definition KEY_I :: int where "KEY_I = 23"
definition KEY_O :: int where "KEY_O = 24"
definition KEY_P :: int where "KEY_P = 25"
definition KEY_LEFTBRACE :: int where "KEY_LEFTBRACE = 26"
definition KEY_RIGHTBRACE :: int where "KEY_RIGHTBRACE = 27"
definition KEY_ENTER :: int where "KEY_ENTER = 28"
definition KEY_LEFTCTRL :: int where "KEY_LEFTCTRL = 29"
definition KEY_A :: int where "KEY_A = 30"
definition KEY_S :: int where "KEY_S = 31"
definition KEY_D :: int where "KEY_D = 32"
definition KEY_F :: int where "KEY_F = 33"
definition KEY_G :: int where "KEY_G = 34"
definition KEY_H :: int where "KEY_H = 35"
definition KEY_J :: int where "KEY_J = 36"
definition KEY_K :: int where "KEY_K = 37"
definition KEY_L :: int where "KEY_L = 38"
definition KEY_SEMICOLON :: int where "KEY_SEMICOLON = 39"
definition KEY_APOSTROPHE :: int where "KEY_APOSTROPHE = 40"
definition KEY_GRAVE :: int where "KEY_GRAVE = 41"
definition KEY_LEFTSHIFT :: int where "KEY_LEFTSHIFT = 42"
definition KEY_BACKSLASH :: int where "KEY_BACKSLASH = 43"
definition KEY_Z :: int where "KEY_Z = 44"
definition KEY_X :: int where "KEY_X = 45"
definition KEY_C :: int where "KEY_C = 46"
definition KEY_V :: int where "KEY_V = 47"
definition KEY_B :: int where "KEY_B = 48"
definition KEY_N :: int where "KEY_N = 49"
definition KEY_M :: int where "KEY_M = 50"
definition KEY_COMMA :: int where "KEY_COMMA = 51"
definition KEY_DOT :: int where "KEY_DOT = 52"
definition KEY_SLASH :: int where "KEY_SLASH = 53"
definition KEY_RIGHTSHIFT :: int where "KEY_RIGHTSHIFT = 54"
definition KEY_LEFTALT :: int where "KEY_LEFTALT = 56"
definition KEY_SPACE :: int where "KEY_SPACE = 57"
definition KEY_CAPSLOCK :: int where "KEY_CAPSLOCK = 58"
definition KEY_F1 :: int where "KEY_F1 = 59"
definition KEY_F10 :: int where "KEY_F10 = 68"
definition KEY_F11 :: int where "KEY_F11 = 87"
definition KEY_F12 :: int where "KEY_F12 = 88"
definition KEY_RIGHTCTRL :: int where "KEY_RIGHTCTRL = 97"
definition KEY_SYSRQ :: int where "KEY_SYSRQ = 99"
definition KEY_RIGHTALT :: int where "KEY_RIGHTALT = 100"
definition KEY_HOME :: int where "KEY_HOME = 102"
definition KEY_UP :: int where "KEY_UP = 103"
definition KEY_PAGEUP :: int where "KEY_PAGEUP = 104"
definition KEY_LEFT :: int where "KEY_LEFT = 105"
definition KEY_RIGHT :: int where "KEY_RIGHT = 106"
definition KEY_END :: int where "KEY_END = 107"
definition KEY_DOWN :: int where "KEY_DOWN = 108"
definition KEY_PAGEDOWN :: int where "KEY_PAGEDOWN = 109"
definition KEY_INSERT :: int where "KEY_INSERT = 110"
definition KEY_DELETE :: int where "KEY_DELETE = 111"
definition KEY_PAUSE :: int where "KEY_PAUSE = 119"
definition KEY_LEFTMETA :: int where "KEY_LEFTMETA = 125"
definition KEY_RIGHTMETA :: int where "KEY_RIGHTMETA = 126"

lemmas key_codes =
  KEY_ESC_def KEY_1_def KEY_0_def KEY_MINUS_def KEY_EQUAL_def KEY_BACKSPACE_def KEY_TAB_def
  KEY_Q_def KEY_W_def KEY_E_def KEY_R_def KEY_T_def KEY_Y_def KEY_U_def KEY_I_def KEY_O_def
  KEY_P_def KEY_LEFTBRACE_def KEY_RIGHTBRACE_def KEY_ENTER_def KEY_LEFTCTRL_def KEY_A_def
  KEY_S_def KEY_D_def KEY_F_def KEY_G_def KEY_H_def KEY_J_def KEY_K_def KEY_L_def
  KEY_SEMICOLON_def KEY_APOSTROPHE_def KEY_GRAVE_def KEY_LEFTSHIFT_def KEY_BACKSLASH_def
  KEY_Z_def KEY_X_def KEY_C_def KEY_V_def KEY_B_def KEY_N_def KEY_M_def KEY_COMMA_def
  KEY_DOT_def KEY_SLASH_def KEY_RIGHTSHIFT_def KEY_LEFTALT_def KEY_SPACE_def KEY_CAPSLOCK_def
  KEY_F1_def KEY_F10_def KEY_F11_def KEY_F12_def KEY_RIGHTCTRL_def KEY_SYSRQ_def
  KEY_RIGHTALT_def KEY_HOME_def KEY_UP_def KEY_PAGEUP_def KEY_LEFT_def KEY_RIGHT_def
  KEY_END_def KEY_DOWN_def KEY_PAGEDOWN_def KEY_INSERT_def KEY_DELETE_def KEY_PAUSE_def
  KEY_LEFTMETA_def KEY_RIGHTMETA_def

section \<open>hotkey.cpp: the character classes of the C locale\<close>

text \<open>
  The program never calls \<^verbatim>\<open>setlocale\<close>, so \<^verbatim>\<open>tolower\<close>, \<^verbatim>\<open>isspace\<close> and
  \<^verbatim>\<open>isdigit\<close> are those of the C locale, applied to bytes.
\<close>

definition tolower :: "char \<Rightarrow> char" where
  "tolower c = (let n = (of_char c :: nat) in if 65 \<le> n \<and> n \<le> 90 then char_of (n + 32) else c)"

definition isspace :: "char \<Rightarrow> bool" where
  "isspace c = (let n = (of_char c :: nat) in n = 32 \<or> (9 \<le> n \<and> n \<le> 13))"

definition isdigit :: "char \<Rightarrow> bool" where
  "isdigit c = (let n = (of_char c :: nat) in 48 \<le> n \<and> n \<le> 57)"

section \<open>hotkey.cpp: \<^verbatim>\<open>name_to_evdev\<close>\<close>

text \<open>The static table \<^verbatim>\<open>letter_codes\<close>, indexed by \<^verbatim>\<open>lower[0] - 'a'\<close>.\<close>

definition letter_codes :: "int list" where
  "letter_codes =
    [KEY_A, KEY_B, KEY_C, KEY_D, KEY_E, KEY_F, KEY_G, KEY_H, KEY_I,
     KEY_J, KEY_K, KEY_L, KEY_M, KEY_N, KEY_O, KEY_P, KEY_Q, KEY_R,
     KEY_S, KEY_T, KEY_U, KEY_V, KEY_W, KEY_X, KEY_Y, KEY_Z]"

text \<open>
  The digit loop of the F-key branch: \<^verbatim>\<open>n = n * 10 + (lower[i] - '0')\<close> on an \<^verbatim>\<open>int\<close>.
  A character that is not a digit makes the function return -1 at once. Signed overflow is
  undefined in C++, so the model stops with \<open>Overflow\<close> where the accumulator would pass
  \<^verbatim>\<open>INT_MAX\<close> and promises nothing about the result there.
\<close>

definition INT_MAX :: int where "INT_MAX = 2147483647"

datatype fkey_scan = Not_digit | Overflow | Number int

fun fkey_loop :: "string \<Rightarrow> int \<Rightarrow> fkey_scan" where
  "fkey_loop [] n = Number n"
| "fkey_loop (c # cs) n =
     (if \<not> isdigit c then Not_digit
      else let n' = n * 10 + (int (of_char c) - 48)
           in if n' > INT_MAX then Overflow else fkey_loop cs n')"

text \<open>
  \<^verbatim>\<open>name_to_evdev\<close>. The result is \<open>Some code\<close>, \<open>Some (-1)\<close> for the source's
  \<^verbatim>\<open>return -1\<close>, and \<open>None\<close> where the digit loop overflows.
\<close>

definition name_to_evdev :: "string \<Rightarrow> int option" where
  "name_to_evdev name =
    (let lower = map tolower name in
     if length lower = 1 \<and> (97::nat) \<le> of_char (lower ! 0) \<and> (of_char (lower ! 0) :: nat) \<le> 122
       then Some (letter_codes ! (of_char (lower ! 0) - 97))
     else if length lower = 1 \<and> (48::nat) \<le> of_char (lower ! 0) \<and> (of_char (lower ! 0) :: nat) \<le> 57
       then (if lower ! 0 = CHR ''0'' then Some KEY_0
             else Some (KEY_1 + (int (of_char (lower ! 0)) - 49)))
     else if lower = ''space'' then Some KEY_SPACE
     else if lower = ''period'' \<or> lower = ''dot'' \<or> lower = ''.'' then Some KEY_DOT
     else if lower = ''comma'' \<or> lower = '','' then Some KEY_COMMA
     else if lower = ''slash'' \<or> lower = ''/'' then Some KEY_SLASH
     else if lower = ''backslash'' \<or> lower = [CHR 0x5C] then Some KEY_BACKSLASH
     else if lower = ''semicolon'' \<or> lower = '';'' then Some KEY_SEMICOLON
     else if lower = ''apostrophe'' \<or> lower = [CHR 0x27] then Some KEY_APOSTROPHE
     else if lower = ''grave'' \<or> lower = [CHR 0x60] then Some KEY_GRAVE
     else if lower = ''minus'' \<or> lower = ''-'' then Some KEY_MINUS
     else if lower = ''equal'' \<or> lower = ''='' then Some KEY_EQUAL
     else if lower = ''leftbrace'' \<or> lower = ''['' then Some KEY_LEFTBRACE
     else if lower = ''rightbrace'' \<or> lower = '']'' then Some KEY_RIGHTBRACE
     else if lower = ''enter'' \<or> lower = ''return'' then Some KEY_ENTER
     else if lower = ''tab'' then Some KEY_TAB
     else if lower = ''backspace'' then Some KEY_BACKSPACE
     else if lower = ''escape'' \<or> lower = ''esc'' then Some KEY_ESC
     else if lower = ''delete'' \<or> lower = ''del'' then Some KEY_DELETE
     else if lower = ''insert'' \<or> lower = ''ins'' then Some KEY_INSERT
     else if lower = ''home'' then Some KEY_HOME
     else if lower = ''end'' then Some KEY_END
     else if lower = ''pageup'' then Some KEY_PAGEUP
     else if lower = ''pagedown'' then Some KEY_PAGEDOWN
     else if lower = ''up'' then Some KEY_UP
     else if lower = ''down'' then Some KEY_DOWN
     else if lower = ''left'' then Some KEY_LEFT
     else if lower = ''right'' then Some KEY_RIGHT
     else if lower = ''capslock'' then Some KEY_CAPSLOCK
     else if lower = ''print'' \<or> lower = ''sysrq'' then Some KEY_SYSRQ
     else if lower = ''pause'' then Some KEY_PAUSE
     else if length lower \<ge> 2 \<and> lower ! 0 = CHR ''f'' then
       (case fkey_loop (drop 1 lower) 0 of
          Not_digit \<Rightarrow> Some (- 1)
        | Overflow \<Rightarrow> None
        | Number n \<Rightarrow>
            if n \<ge> 1 \<and> n \<le> 12 then
              (if n \<le> 10 then Some (KEY_F1 + (n - 1))
               else if n = 11 then Some KEY_F11
               else if n = 12 then Some KEY_F12
               else Some (- 1))
            else Some (- 1))
     else Some (- 1))"

section \<open>hotkey.cpp: the modifier tracker\<close>

text \<open>\<^verbatim>\<open>Impl::update_modifier\<close>: a switch over the eight modifier codes, no default case.\<close>

definition update_modifier :: "int \<Rightarrow> bool \<Rightarrow> Impl \<Rightarrow> Impl" where
  "update_modifier code pressed m =
    (if code = KEY_LEFTCTRL then m\<lparr>ctrl_l := pressed\<rparr>
     else if code = KEY_RIGHTCTRL then m\<lparr>ctrl_r := pressed\<rparr>
     else if code = KEY_LEFTSHIFT then m\<lparr>shift_l := pressed\<rparr>
     else if code = KEY_RIGHTSHIFT then m\<lparr>shift_r := pressed\<rparr>
     else if code = KEY_LEFTALT then m\<lparr>alt_l := pressed\<rparr>
     else if code = KEY_RIGHTALT then m\<lparr>alt_r := pressed\<rparr>
     else if code = KEY_LEFTMETA then m\<lparr>super_l := pressed\<rparr>
     else if code = KEY_RIGHTMETA then m\<lparr>super_r := pressed\<rparr>
     else m)"

text \<open>\<^verbatim>\<open>Impl::is_modifier\<close>.\<close>

definition is_modifier :: "int \<Rightarrow> bool" where
  "is_modifier code \<longleftrightarrow>
     code = KEY_LEFTCTRL \<or> code = KEY_RIGHTCTRL \<or>
     code = KEY_LEFTSHIFT \<or> code = KEY_RIGHTSHIFT \<or>
     code = KEY_LEFTALT \<or> code = KEY_RIGHTALT \<or>
     code = KEY_LEFTMETA \<or> code = KEY_RIGHTMETA"

section \<open>hotkey.cpp: the operating system as the listener sees it\<close>

text \<open>
  The listener opens, queries and closes device nodes. The model keeps the descriptors the
  process has open and the order of the calls made; \<^verbatim>\<open>open\<close> returns the lowest descriptor
  that is not open, as POSIX requires, or -1.
\<close>

datatype syscall = Sys_close int | Sys_opendir | Sys_open string | Sys_closedir

record os_state =
  open_fds :: "int list"
  trace :: "syscall list"

definition sys_close :: "int \<Rightarrow> os_state \<Rightarrow> os_state" where
  "sys_close fd os = os\<lparr>open_fds := removeAll fd (open_fds os), trace := trace os @ [Sys_close fd]\<rparr>"

definition lowest_free :: "int list \<Rightarrow> int" where
  "lowest_free tbl = hd (filter (\<lambda>n. n \<notin> set tbl) (map int [0..<Suc (length tbl)]))"

text \<open>
  One entry of \<^verbatim>\<open>/dev/input\<close> as \<^verbatim>\<open>readdir\<close>, \<^verbatim>\<open>open\<close> and the two
  \<^verbatim>\<open>EVIOCGBIT\<close> queries report it: whether the node can be opened, and for each query
  \<open>None\<close> when \<^verbatim>\<open>ioctl\<close> fails and otherwise whether the bit tested (\<^verbatim>\<open>EV_KEY\<close>, then
  \<^verbatim>\<open>KEY_A\<close>) is set.
\<close>

record dirent =
  d_name :: string
  can_open :: bool
  ev_bits :: "bool option"
  key_bits :: "bool option"

definition sys_open :: "string \<Rightarrow> bool \<Rightarrow> os_state \<Rightarrow> int \<times> os_state" where
  "sys_open path ok os =
    (if ok then
       (let fd = lowest_free (open_fds os)
        in (fd, os\<lparr>open_fds := open_fds os @ [fd], trace := trace os @ [Sys_open path]\<rparr>))
     else (- 1, os\<lparr>trace := trace os @ [Sys_open path]\<rparr>))"

text \<open>\<^verbatim>\<open>Impl::close_all_fds\<close>: close each descriptor in order, then clear the vector.\<close>

definition close_all_fds :: "Impl \<Rightarrow> os_state \<Rightarrow> Impl \<times> os_state" where
  "close_all_fds m os = (m\<lparr>fds := []\<rparr>, fold sys_close (fds m) os)"

text \<open>The body of the \<^verbatim>\<open>readdir\<close> loop of \<^verbatim>\<open>open_keyboards\<close> for one entry.\<close>

definition scan_entry :: "dirent \<Rightarrow> Impl \<times> os_state \<Rightarrow> Impl \<times> os_state" where
  "scan_entry ent st =
    (let (m, os) = st in
     if take 5 (d_name ent) \<noteq> ''event'' then (m, os)
     else
       (let path = ''/dev/input/'' @ d_name ent;
            (fd, os1) = sys_open path (can_open ent) os
        in if fd < 0 then (m, os1)
           else (case ev_bits ent of
                   None \<Rightarrow> (m, sys_close fd os1)
                 | Some has_ev_key \<Rightarrow>
                     if \<not> has_ev_key then (m, sys_close fd os1)
                     else (case key_bits ent of
                             None \<Rightarrow> (m, sys_close fd os1)
                           | Some has_key_a \<Rightarrow>
                               if \<not> has_key_a then (m, sys_close fd os1)
                               else (m\<lparr>fds := fds m @ [fd]\<rparr>, os1)))))"

text \<open>
  \<^verbatim>\<open>HotkeyListener::open_keyboards\<close>. The directory is \<open>None\<close> when \<^verbatim>\<open>opendir\<close>
  fails, otherwise its entries in \<^verbatim>\<open>readdir\<close> order.
\<close>

definition open_keyboards :: "dirent list option \<Rightarrow> Impl \<Rightarrow> os_state \<Rightarrow> bool \<times> Impl \<times> os_state" where
  "open_keyboards dir m os =
    (let (m1, os1) = close_all_fds m os;
         os2 = os1\<lparr>trace := trace os1 @ [Sys_opendir]\<rparr>
     in case dir of
          None \<Rightarrow> (False, m1, os2)
        | Some ents \<Rightarrow>
            (let (m3, os3) = fold scan_entry ents (m1, os2);
                 os4 = os3\<lparr>trace := trace os3 @ [Sys_closedir]\<rparr>
             in (fds m3 \<noteq> [], m3, os4)))"

section \<open>hotkey.cpp: parsing the hotkey string in \<^verbatim>\<open>HotkeyListener::init\<close>\<close>

text \<open>
  \<^verbatim>\<open>std::getline(ss, part, '+')\<close> on what is left of the stream: it fails at the end of the
  input; otherwise it takes the characters before the first delimiter and consumes the
  delimiter.
\<close>

definition getline :: "string \<Rightarrow> char \<Rightarrow> (string \<times> string) option" where
  "getline ss delim =
    (if ss = [] then None
     else Some (takeWhile (\<lambda>c. c \<noteq> delim) ss, drop 1 (dropWhile (\<lambda>c. c \<noteq> delim) ss)))"

text \<open>The two trimming loops of \<^verbatim>\<open>init\<close>: erase from the front, then pop from the back.\<close>

definition trim_front :: "string \<Rightarrow> string" where
  "trim_front part = dropWhile isspace part"

definition trim_back :: "string \<Rightarrow> string" where
  "trim_back part = rev (dropWhile isspace (rev part))"

function split_parts :: "string \<Rightarrow> string list" where
  "split_parts ss =
    (case getline ss (CHR ''+'') of
       None \<Rightarrow> []
     | Some (part, ss') \<Rightarrow>
         (let part' = trim_back (trim_front part)
          in (if part' \<noteq> [] then [part'] else []) @ split_parts ss'))"
  by pat_completeness auto
termination
proof (relation "measure length")
  show "wf (measure length)" by simp
next
  fix ss :: string and x2 x y
  assume "getline ss CHR ''+'' = Some x2" and "(x, y) = x2"
  then have "ss \<noteq> []" and "y = drop 1 (dropWhile (\<lambda>c. c \<noteq> CHR ''+'') ss)"
    by (auto simp: getline_def split: if_splits)
  moreover have "length (dropWhile (\<lambda>c. c \<noteq> CHR ''+'') ss) \<le> length ss"
    by (rule length_dropWhile_le)
  ultimately show "(y, ss) \<in> measure length"
    by (cases ss) (auto simp: le_imp_less_Suc)
qed

declare split_parts.simps [simp del]

text \<open>The modifier aliases of \<^verbatim>\<open>init\<close>; \<open>None\<close> is the branch that reports an unknown
  modifier and returns false.\<close>

definition modifier_bit :: "string \<Rightarrow> 32 word option" where
  "modifier_bit mod_lower =
    (if mod_lower = ''ctrl'' \<or> mod_lower = ''control'' then Some MOD_CTRL
     else if mod_lower = ''shift'' then Some MOD_SHIFT
     else if mod_lower = ''alt'' then Some MOD_ALT
     else if mod_lower = ''super'' \<or> mod_lower = ''super_l'' \<or> mod_lower = ''super_r''
             \<or> mod_lower = ''mod4'' \<or> mod_lower = ''meta'' then Some MOD_SUPER
     else None)"

text \<open>The loop \<^verbatim>\<open>for (i = 0; i + 1 < parts.size(); i++)\<close> over the tokens before the last,
  stopping at the first unknown modifier.\<close>

fun mods_loop :: "string list \<Rightarrow> 32 word \<Rightarrow> 32 word option" where
  "mods_loop [] mmask = Some mmask"
| "mods_loop (p # ps) mmask =
     (case modifier_bit (map tolower p) of
        None \<Rightarrow> None
      | Some b \<Rightarrow> mods_loop ps (mmask OR b))"

datatype parse_error = Empty_hotkey | Unknown_modifier | Unknown_key

text \<open>
  Lines 226 to 270 of \<^verbatim>\<open>init\<close>: everything before the listener is touched. \<open>Inr\<close> carries the
  key code and the modifier mask, \<open>Inl\<close> is one of the three \<^verbatim>\<open>return false\<close>, and \<open>None\<close> is the
  overflow of \<open>name_to_evdev\<close>.
\<close>

definition init_parse :: "string \<Rightarrow> (parse_error + int \<times> 32 word) option" where
  "init_parse hotkey_str =
    (let parts = split_parts hotkey_str in
     if parts = [] then Some (Inl Empty_hotkey)
     else
       (let key_name = last parts in
        case mods_loop (butlast parts) 0 of
          None \<Rightarrow> Some (Inl Unknown_modifier)
        | Some mmask \<Rightarrow>
            (case name_to_evdev key_name of
               None \<Rightarrow> None
             | Some kc \<Rightarrow> if kc < 0 then Some (Inl Unknown_key) else Some (Inr (kc, mmask)))))"


section \<open>hotkey.h, hotkey.cpp: the listener object and its polling thread\<close>

text \<open>
  \<^verbatim>\<open>class HotkeyListener\<close>. The callback is a \<^verbatim>\<open>std::function<void(bool)>\<close>, possibly
  empty; what it does is up to the caller, so it is a transformer of a state \<open>'u\<close> of the
  caller's. The three atomics are plain booleans: every access in the source is one atomic
  load, store or exchange, so the two threads interleave at the level of these operations.
\<close>

record 'u HotkeyListener =
  m_impl :: Impl
  m_running :: bool
  m_event_press :: bool
  m_event_release :: bool
  m_callback :: "(bool \<Rightarrow> 'u \<Rightarrow> 'u) option"

text \<open>\<^verbatim>\<open>poll_pressed\<close> and \<^verbatim>\<open>poll_released\<close>: \<^verbatim>\<open>exchange(false)\<close> returns the old value.\<close>

definition poll_pressed :: "'u HotkeyListener \<Rightarrow> bool \<times> 'u HotkeyListener" where
  "poll_pressed L = (m_event_press L, L\<lparr>m_event_press := False\<rparr>)"

definition poll_released :: "'u HotkeyListener \<Rightarrow> bool \<times> 'u HotkeyListener" where
  "poll_released L = (m_event_release L, L\<lparr>m_event_release := False\<rparr>)"

text \<open>
  What \<^verbatim>\<open>listen_thread\<close> works on: the object, its two locals, the caller's state that the
  callback changes, and the operating system.
\<close>

record 'u listen_state =
  this :: "'u HotkeyListener"
  hotkey_active :: bool
  needs_rescan :: bool
  user :: 'u
  os :: os_state

text \<open>\<^verbatim>\<open>struct input_event\<close> without its timestamp: \<^verbatim>\<open>type\<close> and \<^verbatim>\<open>code\<close> are unsigned
  16-bit, \<^verbatim>\<open>value\<close> is a signed 32-bit integer.\<close>

record input_event =
  ev_type :: nat
  ev_code :: nat
  ev_value :: int

text \<open>The two edge blocks of \<^verbatim>\<open>listen_thread\<close>: set the local, set the flag, call the callback
  if there is one.\<close>

definition activate :: "'u listen_state \<Rightarrow> 'u listen_state" where
  "activate st =
    (let st1 = st\<lparr>hotkey_active := True, this := (this st)\<lparr>m_event_press := True\<rparr>\<rparr>
     in case m_callback (this st1) of
          None \<Rightarrow> st1
        | Some cb \<Rightarrow> st1\<lparr>user := cb True (user st1)\<rparr>)"

definition deactivate :: "'u listen_state \<Rightarrow> 'u listen_state" where
  "deactivate st =
    (let st1 = st\<lparr>hotkey_active := False, this := (this st)\<lparr>m_event_release := True\<rparr>\<rparr>
     in case m_callback (this st1) of
          None \<Rightarrow> st1
        | Some cb \<Rightarrow> st1\<lparr>user := cb False (user st1)\<rparr>)"

text \<open>The body of the read loop for one event that was read in full (lines 374 to 412).\<close>

definition process_event :: "input_event \<Rightarrow> 'u listen_state \<Rightarrow> 'u listen_state" where
  "process_event ev st =
    (if ev_type ev \<noteq> EV_KEY then st
     else
       (let pressed = (ev_value ev = 1);
            released = (ev_value ev = 0)
        in if \<not> pressed \<and> \<not> released then st
           else
             (let code = int (ev_code ev);
                  st1 = (if is_modifier code
                         then st\<lparr>this := (this st)\<lparr>m_impl := update_modifier code pressed (m_impl (this st))\<rparr>\<rparr>
                         else st);
                  st2 = (if code = key_code (m_impl (this st1)) then
                           (if pressed \<and> mods_match (m_impl (this st1)) \<and> \<not> hotkey_active st1
                              then activate st1
                            else if released \<and> hotkey_active st1 then deactivate st1
                            else st1)
                         else st1)
              in if released \<and> is_modifier code \<and> hotkey_active st2 then
                   (if \<not> mods_match (m_impl (this st2)) then deactivate st2 else st2)
                 else st2)))"

text \<open>
  What one \<^verbatim>\<open>read\<close> on a non-blocking descriptor gives: a whole event; -1 with
  \<^verbatim>\<open>EAGAIN\<close> or \<^verbatim>\<open>EWOULDBLOCK\<close>; -1 with \<^verbatim>\<open>EIO\<close> or \<^verbatim>\<open>ENODEV\<close>; or anything else
  (a short read, another error). The inner \<^verbatim>\<open>while (true)\<close> reads until the first result
  that is not an event; a device with nothing more to deliver answers \<^verbatim>\<open>EAGAIN\<close>, which is
  the empty list here.
\<close>

datatype read_result = Read_event input_event | Read_again | Read_gone | Read_other

fun drain :: "read_result list \<Rightarrow> 'u listen_state \<Rightarrow> 'u listen_state" where
  "drain [] st = st"
| "drain (Read_event ev # rs) st = drain rs (process_event ev st)"
| "drain (Read_again # rs) st = st"
| "drain (Read_gone # rs) st = st\<lparr>needs_rescan := True\<rparr>"
| "drain (Read_other # rs) st = st"

text \<open>
  One iteration of \<^verbatim>\<open>while (m_running)\<close> in \<^verbatim>\<open>listen_thread\<close>: the rescan branch, which
  ends in \<^verbatim>\<open>continue\<close>, or the poll of every descriptor. \<open>dir\<close> is what the directory holds
  if it is scanned, \<open>reads fd\<close> what the successive reads of \<open>fd\<close> return. The sleeps
  change no state.
\<close>

definition listen_iteration ::
  "dirent list option \<Rightarrow> (int \<Rightarrow> read_result list) \<Rightarrow> 'u listen_state \<Rightarrow> 'u listen_state" where
  "listen_iteration dir reads st =
    (if needs_rescan st then
       (let st1 = st\<lparr>needs_rescan := False\<rparr>;
            m1 = (m_impl (this st1))\<lparr>ctrl_l := False, ctrl_r := False,
                   shift_l := False, shift_r := False, alt_l := False, alt_r := False,
                   super_l := False, super_r := False\<rparr>;
            st2 = st1\<lparr>this := (this st1)\<lparr>m_impl := m1\<rparr>, hotkey_active := False\<rparr>;
            (ok, m2, os2) = open_keyboards dir (m_impl (this st2)) (os st2);
            st3 = st2\<lparr>this := (this st2)\<lparr>m_impl := m2\<rparr>, os := os2\<rparr>
        in if ok then st3 else st3\<lparr>needs_rescan := True\<rparr>)
     else fold (\<lambda>fd. drain (reads fd)) (fds (m_impl (this st))) st)"

text \<open>\<open>n\<close> calls of a poll accessor in a row, with what each call returned.\<close>

fun poll_pressed_times :: "nat \<Rightarrow> 'u HotkeyListener \<Rightarrow> bool list \<times> 'u HotkeyListener" where
  "poll_pressed_times 0 L = ([], L)"
| "poll_pressed_times (Suc n) L =
     (let (b, L1) = poll_pressed L;
          (bs, L2) = poll_pressed_times n L1
      in (b # bs, L2))"

fun poll_released_times :: "nat \<Rightarrow> 'u HotkeyListener \<Rightarrow> bool list \<times> 'u HotkeyListener" where
  "poll_released_times 0 L = ([], L)"
| "poll_released_times (Suc n) L =
     (let (b, L1) = poll_released L;
          (bs, L2) = poll_released_times n L1
      in (b # bs, L2))"

text \<open>
  The two threads together: the listener handles an event, or the consumer calls one of the
  accessors. \<open>observe\<close> runs any such interleaving and lists, in order, every edge of
  \<^verbatim>\<open>hotkey_active\<close> (an activation or a deactivation) and every answer of an accessor.
\<close>

datatype action = Listener_event input_event | Call_poll_pressed | Call_poll_released

datatype observation = Activation | Deactivation | Pressed_answer bool | Released_answer bool

fun observe :: "action list \<Rightarrow> 'u listen_state \<Rightarrow> observation list" where
  "observe [] st = []"
| "observe (Listener_event ev # as) st =
     (let st' = process_event ev st
      in (if \<not> hotkey_active st \<and> hotkey_active st' then [Activation]
          else if hotkey_active st \<and> \<not> hotkey_active st' then [Deactivation]
          else []) @ observe as st')"
| "observe (Call_poll_pressed # as) st =
     (let (b, L) = poll_pressed (this st)
      in Pressed_answer b # observe as (st\<lparr>this := L\<rparr>))"
| "observe (Call_poll_released # as) st =
     (let (b, L) = poll_released (this st)
      in Released_answer b # observe as (st\<lparr>this := L\<rparr>))"

section \<open>text-output.cpp: \<^verbatim>\<open>TextOutput\<close>\<close>

record TextOutput =
  m_use_clipboard :: bool
  m_type_delay_ms :: int

definition CMD_TIMEOUT_MS :: int where "CMD_TIMEOUT_MS = 5000"

text \<open>
  \<^verbatim>\<open>run_cmd\<close> forks and runs an external program. What the program does to the desktop (the
  clipboard, the focused window) is outside the sources, so it is a parameter: from the
  argument vector, the timeout, the optional standard input, whether standard output is
  captured, and the desktop \<open>'w\<close>, to the exit status (or -1), the captured output and the
  new desktop. Every string that the source captures into starts empty.
\<close>

type_synonym 'w run_cmd =
  "string list \<Rightarrow> int \<Rightarrow> string option \<Rightarrow> bool \<Rightarrow> 'w \<Rightarrow> (int \<times> string) \<times> 'w"

text \<open>\<^verbatim>\<open>std::to_string\<close> of an \<^verbatim>\<open>int\<close>.\<close>

fun nat_digits :: "nat \<Rightarrow> string" where
  "nat_digits n =
    (if n < 10 then [char_of (48 + n)]
     else nat_digits (n div 10) @ [char_of (48 + n mod 10)])"

definition to_string :: "int \<Rightarrow> string" where
  "to_string i = (if i < 0 then CHR ''-'' # nat_digits (nat (- i)) else nat_digits (nat i))"

text \<open>The loops that pop trailing \<^verbatim>\<open>'\n'\<close> and \<^verbatim>\<open>'\r'\<close> off a captured line.\<close>

definition strip_newlines :: "string \<Rightarrow> string" where
  "strip_newlines s = rev (dropWhile (\<lambda>c. c = CHR 0x0A \<or> c = CHR 0x0D) (rev s))"

definition terminals :: "string list" where
  "terminals =
    [''alacritty'', ''kitty'', ''gnome-terminal'', ''gnome-terminal-server'', ''xterm'',
     ''uxterm'', ''konsole'', ''xfce4-terminal'', ''terminator'', ''tilix'', ''urxvt'',
     ''st-256color'', ''st'', ''foot'', ''wezterm'', ''terminal'', ''ghostty'', ''rio'',
     ''contour'', ''hyper'', ''tabby'', ''sakura'', ''guake'', ''tilda'', ''yakuake'',
     ''terminology'']"

definition is_terminal_class :: "string \<Rightarrow> bool" where
  "is_terminal_class cls = (map tolower cls \<in> set terminals)"

definition type_xdotool :: "'w run_cmd \<Rightarrow> string \<Rightarrow> TextOutput \<Rightarrow> 'w \<Rightarrow> bool \<times> 'w" where
  "type_xdotool rc text out w =
    (let delay_str = to_string (m_type_delay_ms out);
         ((ret, _), w1) = rc [''xdotool'', ''type'', ''--clearmodifiers'',
                              ''--delay'', delay_str, ''--'', text] CMD_TIMEOUT_MS None False w
     in if ret \<noteq> 0 then (False, w1) else (True, w1))"

definition type_clipboard :: "'w run_cmd \<Rightarrow> string \<Rightarrow> 'w \<Rightarrow> bool \<times> 'w" where
  "type_clipboard rc text w =
    (let ((_, saved_clipboard), w1) =
           rc [''xclip'', ''-selection'', ''clipboard'', ''-o''] CMD_TIMEOUT_MS None True w;
         ((ret, _), w2) =
           rc [''xclip'', ''-selection'', ''clipboard''] CMD_TIMEOUT_MS (Some text) False w1
     in if ret \<noteq> 0 then (False, w2)
        else
          (let ((ret4, out4), w3) = rc [''xdotool'', ''getactivewindow''] CMD_TIMEOUT_MS None True w2;
               window_id = strip_newlines (if ret4 \<noteq> 0 then [] else out4);
               (is_terminal, w4) =
                 (if window_id \<noteq> [] then
                    (let ((ret5, window_class), w') =
                           rc [''xdotool'', ''getwindowclassname'', window_id] CMD_TIMEOUT_MS None True w3
                     in (if ret5 = 0 then is_terminal_class (strip_newlines window_class) else False, w'))
                  else (False, w3));
               ((paste_ret, _), w5) =
                 (if window_id \<noteq> [] then
                    (if is_terminal then
                       rc [''xdotool'', ''key'', ''--clearmodifiers'', ''--window'', window_id,
                           ''ctrl+shift+v''] CMD_TIMEOUT_MS None False w4
                     else
                       rc [''xdotool'', ''key'', ''--clearmodifiers'', ''--window'', window_id,
                           ''ctrl+v''] CMD_TIMEOUT_MS None False w4)
                  else
                    (let paste_key = (if is_terminal then ''ctrl+shift+v'' else ''ctrl+v'')
                     in rc [''xdotool'', ''key'', ''--clearmodifiers'', paste_key]
                          CMD_TIMEOUT_MS None False w4));
               (_, w6) =
                 rc [''xclip'', ''-selection'', ''clipboard''] CMD_TIMEOUT_MS (Some saved_clipboard) False w5
           in (paste_ret = 0, w6)))"

text \<open>\<^verbatim>\<open>TextOutput::type\<close>.\<close>

definition TextOutput_type :: "'w run_cmd \<Rightarrow> string \<Rightarrow> TextOutput \<Rightarrow> 'w \<Rightarrow> bool \<times> 'w" where
  "TextOutput_type rc text out w =
    (if text = [] then (True, w)
     else if m_use_clipboard out then type_clipboard rc text w
     else type_xdotool rc text out w)"

text \<open>A desktop that only records the commands run on it, each with its standard input; every
  command succeeds and prints nothing.\<close>

definition record_cmd :: "(string list \<times> string option) list run_cmd" where
  "record_cmd argv timeout_ms stdin_data capture w = ((0, []), w @ [(argv, stdin_data)])"

section \<open>typer.cpp: the recording state machine of \<^verbatim>\<open>main\<close>\<close>

datatype State = IDLE | RECORDING | TRANSCRIBING

text \<open>The fields of \<^verbatim>\<open>typer_params\<close> that the loop reads itself. The thresholds handed on
  to \<^verbatim>\<open>vad_simple\<close> and the settings of the engine are part of those collaborators below.\<close>

record typer_params =
  silence_ms :: int
  max_record_ms :: int
  push_to_talk :: bool

text \<open>
  The calls the loop makes to its collaborators, in order: the audio buffer, the
  voice-activity check, the engine behind \<^verbatim>\<open>transcribe\<close>, and \<^verbatim>\<open>output.type\<close>, whose own
  behaviour is \<open>TextOutput_type\<close>.
\<close>

datatype collab = Audio_clear | Audio_get int | Vad_simple "real list" | Transcribe "real list"
  | Output_type string

text \<open>The locals of \<^verbatim>\<open>main\<close> that the loop keeps, the listener it polls, the signal flag, and
  the calls made so far.\<close>

record 'u typer =
  state :: State
  pcmf32 :: "real list"
  record_start :: int
  silence_start :: int
  speech_detected :: bool
  hotkey :: "'u HotkeyListener"
  g_sigusr1 :: bool
  calls :: "collab list"

text \<open>
  What the surroundings answer during one iteration: the readings of
  \<^verbatim>\<open>steady_clock::now()\<close> in the order they are taken, in nanoseconds (the tick of
  \<^verbatim>\<open>steady_clock\<close> in libstdc++ and libc++); the samples \<^verbatim>\<open>audio.get\<close> stores for a
  requested duration; the verdict of \<^verbatim>\<open>vad_simple\<close> (true when the tail is silent); the text
  the engine returns.
\<close>

record env =
  now :: "nat \<Rightarrow> int"
  audio_get :: "int \<Rightarrow> real list"
  vad_simple :: "real list \<Rightarrow> bool"
  transcribe :: "real list \<Rightarrow> string"

text \<open>\<^verbatim>\<open>duration_cast<milliseconds>(d).count()\<close> of a nanosecond duration: division that
  truncates towards zero.\<close>

definition duration_ms :: "int \<Rightarrow> int" where
  "duration_ms d = sgn d * (\<bar>d\<bar> div 1000000)"

text \<open>The cast \<^verbatim>\<open>(int)elapsed_ms\<close> from a 64-bit count: the low 32 bits, read as signed.\<close>

definition int_cast :: "int \<Rightarrow> int" where
  "int_cast x = sint (word_of_int x :: 32 word)"

text \<open>\<^verbatim>\<open>vad_min_samples = (size_t)(WHISPER_SAMPLE_RATE * 2) + 1\<close>. The macro is defined in
  whisper.h, which is not among the sources, so the sample rate is a parameter.\<close>

definition vad_min_samples :: "nat \<Rightarrow> nat" where
  "vad_min_samples sample_rate = sample_rate * 2 + 1"

text \<open>
  Modelled from the spec: \<^verbatim>\<open>::trim\<close> is declared in common.h, which is not among the
  sources; the specification says it trims incidental leading and trailing whitespace.
\<close>

definition trim :: "string \<Rightarrow> string" where
  "trim s = rev (dropWhile isspace (rev (dropWhile isspace s)))"

text \<open>\<^verbatim>\<open>hotkey.poll_pressed() || g_sigusr1.exchange(false)\<close>: the signal flag is exchanged
  only when the poll returned false.\<close>

definition pressed_or_signal :: "'u HotkeyListener \<Rightarrow> bool \<Rightarrow> bool \<times> 'u HotkeyListener \<times> bool" where
  "pressed_or_signal h sig =
    (let (p, h1) = poll_pressed h
     in if p then (True, h1, sig) else (sig, h1, False))"

text \<open>\<^verbatim>\<open>case State::IDLE\<close>.\<close>

definition idle_step :: "env \<Rightarrow> 'u typer \<Rightarrow> 'u typer" where
  "idle_step e t =
    (let (triggered, h1, sig1) = pressed_or_signal (hotkey t) (g_sigusr1 t);
         t1 = t\<lparr>hotkey := h1, g_sigusr1 := sig1\<rparr>
     in if triggered then
          (let t2 = t1\<lparr>calls := calls t1 @ [Audio_clear], pcmf32 := [], speech_detected := False,
                       record_start := now e 0, silence_start := now e 1\<rparr>;
               (_, h2) = poll_pressed (hotkey t2);
               (_, h3) = poll_released h2
           in t2\<lparr>hotkey := h3, state := RECORDING\<rparr>)
        else t1)"

text \<open>\<^verbatim>\<open>case State::RECORDING\<close>.\<close>

definition recording_step :: "typer_params \<Rightarrow> nat \<Rightarrow> env \<Rightarrow> 'u typer \<Rightarrow> 'u typer" where
  "recording_step params sample_rate e t =
    (let (stop_triggered, h1, sig1) =
           (if push_to_talk params then
              (let (r, h) = poll_released (hotkey t) in (r, h, g_sigusr1 t))
            else pressed_or_signal (hotkey t) (g_sigusr1 t));
         t1 = t\<lparr>hotkey := h1, g_sigusr1 := sig1\<rparr>
     in if stop_triggered then
          (let since_start = duration_ms (now e 0 - record_start t1)
           in if since_start < 300 then t1
              else t1\<lparr>speech_detected := True, state := TRANSCRIBING\<rparr>)
        else
          (let now' = now e 0;
               elapsed_ms = duration_ms (now' - record_start t1)
           in if elapsed_ms \<ge> max_record_ms params then t1\<lparr>state := TRANSCRIBING\<rparr>
              else
                (let vad_buf = audio_get e 2000;
                     t2 = t1\<lparr>calls := calls t1 @ [Audio_get 2000]\<rparr>
                 in if length vad_buf \<ge> vad_min_samples sample_rate then
                      (let is_silent = vad_simple e vad_buf;
                           t3 = t2\<lparr>calls := calls t2 @ [Vad_simple vad_buf]\<rparr>;
                           t4 = (if \<not> is_silent
                                 then t3\<lparr>speech_detected := True, silence_start := now'\<rparr>
                                 else t3)
                       in if speech_detected t4 then
                            (let silence_duration = duration_ms (now' - silence_start t4)
                             in if silence_duration \<ge> silence_ms params
                                then t4\<lparr>state := TRANSCRIBING\<rparr> else t4)
                          else t4)
                    else t2)))"

text \<open>\<^verbatim>\<open>case State::TRANSCRIBING\<close>.\<close>

definition transcribing_step :: "typer_params \<Rightarrow> env \<Rightarrow> 'u typer \<Rightarrow> 'u typer" where
  "transcribing_step params e t =
    (let elapsed_ms = duration_ms (now e 0 - record_start t);
         get_ms = min (int_cast elapsed_ms) (max_record_ms params);
         t1 = t\<lparr>pcmf32 := audio_get e get_ms, calls := calls t @ [Audio_get get_ms]\<rparr>
     in if pcmf32 t1 = [] then t1\<lparr>state := IDLE\<rparr>
        else if \<not> speech_detected t1 then t1\<lparr>state := IDLE\<rparr>
        else
          (let text = transcribe e (pcmf32 t1);
               t2 = t1\<lparr>calls := calls t1 @ [Transcribe (pcmf32 t1)]\<rparr>;
               text' = trim text
           in if text' \<noteq> [] then t2\<lparr>calls := calls t2 @ [Output_type text'], state := IDLE\<rparr>
              else t2\<lparr>state := IDLE\<rparr>))"

text \<open>The \<^verbatim>\<open>switch (state)\<close> of one loop iteration.\<close>

definition main_step :: "typer_params \<Rightarrow> nat \<Rightarrow> env \<Rightarrow> 'u typer \<Rightarrow> 'u typer" where
  "main_step params sample_rate e t =
    (case state t of
       IDLE \<Rightarrow> idle_step e t
     | RECORDING \<Rightarrow> recording_step params sample_rate e t
     | TRANSCRIBING \<Rightarrow> transcribing_step params e t)"

section \<open>Concrete inputs\<close>

text \<open>
  A listener for \<^verbatim>\<open>ctrl+period\<close> with one keyboard on descriptor 3 and a callback that
  appends its argument to a list; and the events used with it below.
\<close>

definition ctrl_period_listener :: "bool list listen_state" where
  "ctrl_period_listener =
    \<lparr>this = \<lparr>m_impl = Impl_init\<lparr>fds := [3], key_code := KEY_DOT, modmask := MOD_CTRL\<rparr>,
             m_running = True, m_event_press = False, m_event_release = False,
             m_callback = Some (\<lambda>b log. log @ [b])\<rparr>,
     hotkey_active = False, needs_rescan = False, user = [],
     os = \<lparr>open_fds = [0, 1, 2, 3], trace = []\<rparr>\<rparr>"

definition key_event :: "nat \<Rightarrow> int \<Rightarrow> input_event" where
  "key_event code v = \<lparr>ev_type = 1, ev_code = code, ev_value = v\<rparr>"

text \<open>
  A listener that lost track of its keyboards: two handles, control and shift recorded as
  held, the hotkey active, and the rescan flag set; and a directory with a device that is
  not a keyboard, a node of another kind, a node that cannot be opened and a keyboard.
\<close>

definition lost_keyboard :: "bool list listen_state" where
  "lost_keyboard =
    \<lparr>this = \<lparr>m_impl = Impl_init\<lparr>fds := [3, 4], key_code := KEY_DOT, modmask := MOD_CTRL,
                        ctrl_l := True, shift_r := True\<rparr>,
             m_running = True, m_event_press = False, m_event_release = False,
             m_callback = Some (\<lambda>b log. log @ [b])\<rparr>,
     hotkey_active = True, needs_rescan = True, user = [True],
     os = \<lparr>open_fds = [0, 1, 2, 3, 4, 5], trace = []\<rparr>\<rparr>"

definition dev_input :: "dirent list" where
  "dev_input =
    [\<lparr>d_name = ''event0'', can_open = True, ev_bits = Some True, key_bits = Some False\<rparr>,
     \<lparr>d_name = ''mice'', can_open = True, ev_bits = Some True, key_bits = Some True\<rparr>,
     \<lparr>d_name = ''event1'', can_open = False, ev_bits = Some True, key_bits = Some True\<rparr>,
     \<lparr>d_name = ''event2'', can_open = True, ev_bits = Some True, key_bits = Some True\<rparr>]"

text \<open>
  The invariant of the scan loop: the descriptors open are those that were open when the scan
  began (\<open>base\<close>) together with the handles kept so far, the two sets are disjoint, and no
  handle is kept twice.
\<close>

definition scan_inv :: "int set \<Rightarrow> Impl \<times> os_state \<Rightarrow> bool" where
  "scan_inv base st \<longleftrightarrow> set (open_fds (snd st)) = base \<union> set (fds (fst st)) \<and> base \<inter> set (fds (fst st)) = {}
     \<and> distinct (fds (fst st))"

section \<open>Descriptions used in the statements about the key-name resolver and the parser\<close>

text \<open>
  The classes of names that \<^verbatim>\<open>name_to_evdev\<close> tests first, on the lower-cased name: a
  single letter, a single digit, and the names compared against in the table of named keys.
\<close>

definition single_letter :: "string \<Rightarrow> bool" where
  "single_letter lower \<longleftrightarrow>
     length lower = 1 \<and> (97::nat) \<le> of_char (lower ! 0) \<and> (of_char (lower ! 0) :: nat) \<le> 122"

definition single_digit :: "string \<Rightarrow> bool" where
  "single_digit lower \<longleftrightarrow>
     length lower = 1 \<and> (48::nat) \<le> of_char (lower ! 0) \<and> (of_char (lower ! 0) :: nat) \<le> 57"

definition named_key_names :: "string list" where
  "named_key_names =
    [''space'', ''period'', ''dot'', ''.'', ''comma'', '','', ''slash'', ''/'',
     ''backslash'', [CHR 0x5C], ''semicolon'', '';'', ''apostrophe'', [CHR 0x27],
     ''grave'', [CHR 0x60], ''minus'', ''-'', ''equal'', ''='', ''leftbrace'', ''['',
     ''rightbrace'', '']'', ''enter'', ''return'', ''tab'', ''backspace'', ''escape'', ''esc'',
     ''delete'', ''del'', ''insert'', ''ins'', ''home'', ''end'', ''pageup'', ''pagedown'',
     ''up'', ''down'', ''left'', ''right'', ''capslock'', ''print'', ''sysrq'', ''pause'']"

text \<open>The recognized set as the specification lists it: letters, digits, the named keys, and
  the twelve names \<^verbatim>\<open>f1\<close> to \<^verbatim>\<open>f12\<close>.\<close>

definition spec_recognized :: "string \<Rightarrow> bool" where
  "spec_recognized lower \<longleftrightarrow>
     single_letter lower \<or> single_digit lower \<or> lower \<in> set named_key_names \<or>
     lower \<in> set [''f1'', ''f2'', ''f3'', ''f4'', ''f5'', ''f6'', ''f7'', ''f8'', ''f9'',
                   ''f10'', ''f11'', ''f12'']"

text \<open>What the F-key branch reads from a lower-cased name: the scan of the characters after a
  leading \<^verbatim>\<open>f\<close>, for a name of at least two characters; and the code for a number.\<close>

definition fkey_number :: "string \<Rightarrow> fkey_scan" where
  "fkey_number lower =
     (if length lower \<ge> 2 \<and> lower ! 0 = CHR ''f'' then fkey_loop (drop 1 lower) 0 else Not_digit)"

definition fkey_code :: "int \<Rightarrow> int" where
  "fkey_code n = (if n \<le> 10 then KEY_F1 + (n - 1) else if n = 11 then KEY_F11 else KEY_F12)"

text \<open>The number that a string of decimal digits denotes, by place value: each digit times
  the power of ten of its position. Leading zeros do not change it.\<close>

fun decimal :: "string \<Rightarrow> int" where
  "decimal [] = 0"
| "decimal (c # cs) = (int (of_char c) - 48) * 10 ^ length cs + decimal cs"






text \<open>
  Whether a manual stop is pending when an iteration in the Recording state begins: the
  release flag in push-to-talk mode, the press flag or the signal flag in toggle mode; and
  the time since the recording started as the loop computes it, in milliseconds.
\<close>

definition stop_pending :: "typer_params \<Rightarrow> 'u typer \<Rightarrow> bool" where
  "stop_pending params t =
     (if push_to_talk params then m_event_release (hotkey t)
      else m_event_press (hotkey t) \<or> g_sigusr1 t)"

definition since_start :: "env \<Rightarrow> 'u typer \<Rightarrow> int" where
  "since_start e t = duration_ms (now e 0 - record_start t)"

text \<open>
  A recording that began at the clock reading of one second, in toggle mode, with a press
  edge pending; the defaults of \<^verbatim>\<open>typer_params\<close>; and surroundings in which the clock
  reads \<open>t\<close>, the audio buffer returns \<open>n\<close> samples, the voice-activity check reports
  speech, and the engine returns a text with spaces around it.
\<close>

definition idle_listener :: "unit HotkeyListener" where
  "idle_listener =
    \<lparr>m_impl = Impl_init\<lparr>fds := [3], key_code := KEY_DOT, modmask := MOD_CTRL\<rparr>,
     m_running = True, m_event_press = False, m_event_release = False, m_callback = None\<rparr>"

definition recording_typer :: "unit typer" where
  "recording_typer =
    \<lparr>state = RECORDING, pcmf32 = [], record_start = 1000000000, silence_start = 1000000000,
     speech_detected = False, hotkey = idle_listener\<lparr>m_event_press := True\<rparr>,
     g_sigusr1 = False, calls = [Audio_clear]\<rparr>"

definition default_params :: typer_params where
  "default_params = \<lparr>silence_ms = 1500, max_record_ms = 30000, push_to_talk = False\<rparr>"

definition surroundings :: "int \<Rightarrow> nat \<Rightarrow> env" where
  "surroundings t n =
    \<lparr>now = (\<lambda>k. t), audio_get = (\<lambda>ms. replicate n 0), vad_simple = (\<lambda>buf. False),
     transcribe = (\<lambda>buf. '' hello world '')\<rparr>"

text \<open>The same recording with no edge pending, and a machine that has just entered the
  Transcribing state after it, with or without speech detected.\<close>

definition quiet_typer :: "unit typer" where
  "quiet_typer = recording_typer\<lparr>hotkey := idle_listener\<rparr>"

definition transcribing_typer :: "bool \<Rightarrow> unit typer" where
  "transcribing_typer sp =
     quiet_typer\<lparr>state := TRANSCRIBING, speech_detected := sp, calls := [Audio_clear, Audio_get 2000]\<rparr>"

section \<open>Exact match of the modifiers\<close>

lemma mods_match_families:
  "mods_match m \<longleftrightarrow>
     ((ctrl_l m \<or> ctrl_r m) = ((modmask m AND MOD_CTRL) \<noteq> 0)) \<and>
     ((shift_l m \<or> shift_r m) = ((modmask m AND MOD_SHIFT) \<noteq> 0)) \<and>
     ((alt_l m \<or> alt_r m) = ((modmask m AND MOD_ALT) \<noteq> 0)) \<and>
     ((super_l m \<or> super_r m) = ((modmask m AND MOD_SUPER) \<noteq> 0))"
  unfolding mods_match_def Let_def by auto

lemma bit_MOD:
  "bit MOD_CTRL n \<longleftrightarrow> n = 0" "bit MOD_SHIFT n \<longleftrightarrow> n = 1"
  "bit MOD_ALT n \<longleftrightarrow> n = 2" "bit MOD_SUPER n \<longleftrightarrow> n = 3"
  unfolding MOD_CTRL_def MOD_SHIFT_def MOD_ALT_def MOD_SUPER_def
  by (auto simp: bit_simps simp del: push_bit_of_1)

lemma and_MOD:
  "(w AND MOD_CTRL \<noteq> 0) = bit w 0" "(w AND MOD_SHIFT \<noteq> 0) = bit w 1"
  "(w AND MOD_ALT \<noteq> 0) = bit w 2" "(w AND MOD_SUPER \<noteq> 0) = bit w 3"
  unfolding MOD_CTRL_def MOD_SHIFT_def MOD_ALT_def MOD_SUPER_def
  by (simp_all only: bit_iff_and_push_bit_not_eq_0)

lemma held_bits:
  "bit (held_mask m) n \<longleftrightarrow>
     (n = 0 \<and> (ctrl_l m \<or> ctrl_r m)) \<or> (n = 1 \<and> (shift_l m \<or> shift_r m)) \<or>
     (n = 2 \<and> (alt_l m \<or> alt_r m)) \<or> (n = 3 \<and> (super_l m \<or> super_r m))"
  unfolding held_mask_def by (simp add: bit_or_iff bit_MOD)

lemma required_bits:
  "bit (w AND (MOD_CTRL OR MOD_SHIFT OR MOD_ALT OR MOD_SUPER)) n \<longleftrightarrow>
     bit w n \<and> (n = 0 \<or> n = 1 \<or> n = 2 \<or> n = 3)"
  by (simp add: bit_and_iff bit_or_iff bit_MOD)

lemma mods_match_iff_held:
  "mods_match m \<longleftrightarrow> held_mask m = modmask m AND (MOD_CTRL OR MOD_SHIFT OR MOD_ALT OR MOD_SUPER)"
proof
  assume "mods_match m"
  then have fam: "(ctrl_l m \<or> ctrl_r m) = bit (modmask m) 0"
      "(shift_l m \<or> shift_r m) = bit (modmask m) 1"
      "(alt_l m \<or> alt_r m) = bit (modmask m) 2"
      "(super_l m \<or> super_r m) = bit (modmask m) 3"
    by (simp_all add: mods_match_families and_MOD)
  show "held_mask m = modmask m AND (MOD_CTRL OR MOD_SHIFT OR MOD_ALT OR MOD_SUPER)"
  proof (rule bit_eqI)
    fix n
    show "bit (held_mask m) n = bit (modmask m AND (MOD_CTRL OR MOD_SHIFT OR MOD_ALT OR MOD_SUPER)) n"
      unfolding held_bits required_bits fam by auto
  qed
next
  assume eq: "held_mask m = modmask m AND (MOD_CTRL OR MOD_SHIFT OR MOD_ALT OR MOD_SUPER)"
  have "bit (held_mask m) n = (bit (modmask m) n \<and> (n = 0 \<or> n = 1 \<or> n = 2 \<or> n = 3))" for n
    unfolding eq required_bits ..
  from this[of 0] this[of 1] this[of 2] this[of 3]
  show "mods_match m"
    unfolding mods_match_families and_MOD held_bits by simp
qed

text \<open>The mask that \<^verbatim>\<open>init\<close> stores never has a bit outside the four modifier flags.\<close>

lemma modifier_bit_within:
  "modifier_bit t = Some b \<Longrightarrow> b AND (MOD_CTRL OR MOD_SHIFT OR MOD_ALT OR MOD_SUPER) = b"
  by (rule bit_eqI) (auto simp: modifier_bit_def required_bits bit_MOD split: if_splits)

lemma mods_loop_within:
  "mods_loop ps mm = Some r \<Longrightarrow> mm AND (MOD_CTRL OR MOD_SHIFT OR MOD_ALT OR MOD_SUPER) = mm
     \<Longrightarrow> r AND (MOD_CTRL OR MOD_SHIFT OR MOD_ALT OR MOD_SUPER) = r"
proof (induction ps arbitrary: mm)
  case Nil
  then show ?case by simp
next
  case (Cons p ps)
  from Cons.prems(1) obtain b where b: "modifier_bit (map tolower p) = Some b"
    and rest: "mods_loop ps (mm OR b) = Some r"
    by (auto split: option.splits)
  have "(mm OR b) AND (MOD_CTRL OR MOD_SHIFT OR MOD_ALT OR MOD_SUPER) = mm OR b"
    using modifier_bit_within[OF b] Cons.prems(2)
    by (metis bit.conj_disj_distrib2)
  with Cons.IH[OF rest] show ?case .
qed

lemma init_parse_within:
  "init_parse s = Some (Inr (kc, mm)) \<Longrightarrow> mm AND (MOD_CTRL OR MOD_SHIFT OR MOD_ALT OR MOD_SUPER) = mm"
  unfolding init_parse_def Let_def
  by (auto split: if_splits option.splits dest!: mods_loop_within)

text \<open>
  Claim C1. \<^verbatim>\<open>mods_match\<close> is true exactly when the set of held logical modifiers equals the
  required mask: family by family, the modifier is held (left or right) if and only if its
  bit is in \<^verbatim>\<open>modmask\<close>; as masks, the held set equals \<^verbatim>\<open>modmask\<close> on the four modifier
  bits, and equals \<^verbatim>\<open>modmask\<close> itself for every mask that \<^verbatim>\<open>init\<close> can store. With
  required = {CTRL} and held = {CTRL, SHIFT} there is no match.
\<close>

theorem mods_match_exact:
  "(mods_match m \<longleftrightarrow>
      ((ctrl_l m \<or> ctrl_r m) = ((modmask m AND MOD_CTRL) \<noteq> 0)) \<and>
      ((shift_l m \<or> shift_r m) = ((modmask m AND MOD_SHIFT) \<noteq> 0)) \<and>
      ((alt_l m \<or> alt_r m) = ((modmask m AND MOD_ALT) \<noteq> 0)) \<and>
      ((super_l m \<or> super_r m) = ((modmask m AND MOD_SUPER) \<noteq> 0))) \<and>
   (mods_match m \<longleftrightarrow>
      held_mask m = modmask m AND (MOD_CTRL OR MOD_SHIFT OR MOD_ALT OR MOD_SUPER)) \<and>
   (init_parse s = Some (Inr (kc, modmask m)) \<longrightarrow> (mods_match m \<longleftrightarrow> held_mask m = modmask m)) \<and>
   \<not> mods_match (Impl_init\<lparr>modmask := MOD_CTRL, ctrl_l := True, shift_l := True\<rparr>)"
proof (intro conjI impI)
  show "mods_match m \<longleftrightarrow>
      ((ctrl_l m \<or> ctrl_r m) = ((modmask m AND MOD_CTRL) \<noteq> 0)) \<and>
      ((shift_l m \<or> shift_r m) = ((modmask m AND MOD_SHIFT) \<noteq> 0)) \<and>
      ((alt_l m \<or> alt_r m) = ((modmask m AND MOD_ALT) \<noteq> 0)) \<and>
      ((super_l m \<or> super_r m) = ((modmask m AND MOD_SUPER) \<noteq> 0))"
    by (rule mods_match_families)
  show "mods_match m \<longleftrightarrow>
      held_mask m = modmask m AND (MOD_CTRL OR MOD_SHIFT OR MOD_ALT OR MOD_SUPER)"
    by (rule mods_match_iff_held)
  show "mods_match m \<longleftrightarrow> held_mask m = modmask m"
    if "init_parse s = Some (Inr (kc, modmask m))"
    using init_parse_within[OF that] mods_match_iff_held[of m] by simp
  show "\<not> mods_match (Impl_init\<lparr>modmask := MOD_CTRL, ctrl_l := True, shift_l := True\<rparr>)"
    by (simp add: mods_match_families Impl_init_def and_MOD bit_MOD)
qed

lemma init_parse_ctrl_period: "init_parse ''ctrl+period'' = Some (Inr (KEY_DOT, MOD_CTRL))"
  by code_simp

theorem mods_match_exact_witness:
  "init_parse ''ctrl+period'' = Some (Inr (KEY_DOT, MOD_CTRL)) \<and>
   held_mask (Impl_init\<lparr>modmask := MOD_CTRL, ctrl_l := True, shift_l := True\<rparr>) = MOD_CTRL OR MOD_SHIFT \<and>
   MOD_CTRL OR MOD_SHIFT \<noteq> MOD_CTRL \<and>
   \<not> mods_match (Impl_init\<lparr>modmask := MOD_CTRL, ctrl_l := True, shift_l := True\<rparr>) \<and>
   held_mask (Impl_init\<lparr>modmask := MOD_CTRL, ctrl_r := True\<rparr>) = MOD_CTRL \<and>
   mods_match (Impl_init\<lparr>modmask := MOD_CTRL, ctrl_r := True\<rparr>)"
proof -
  let ?a = "Impl_init\<lparr>modmask := MOD_CTRL, ctrl_l := True, shift_l := True\<rparr>"
  let ?b = "Impl_init\<lparr>modmask := MOD_CTRL, ctrl_r := True\<rparr>"
  have ne: "MOD_CTRL OR MOD_SHIFT \<noteq> MOD_CTRL"
    by (simp add: MOD_CTRL_def MOD_SHIFT_def)
  have h1: "held_mask ?a = MOD_CTRL OR MOD_SHIFT"
    by (simp add: held_mask_def Impl_init_def)
  have h2: "held_mask ?b = MOD_CTRL"
    by (simp add: held_mask_def Impl_init_def)
  have pa: "init_parse ''ctrl+period'' = Some (Inr (KEY_DOT, modmask ?a))"
    using init_parse_ctrl_period by simp
  have pb: "init_parse ''ctrl+period'' = Some (Inr (KEY_DOT, modmask ?b))"
    using init_parse_ctrl_period by simp
  have ma: "modmask ?a = MOD_CTRL" and mb: "modmask ?b = MOD_CTRL"
    by simp_all
  from mods_match_exact[of ?a "''ctrl+period''" KEY_DOT] pa
  have "mods_match ?a \<longleftrightarrow> held_mask ?a = modmask ?a"
    by blast
  then have na: "\<not> mods_match ?a"
    unfolding h1 ma using ne by blast
  from mods_match_exact[of ?b "''ctrl+period''" KEY_DOT] pb
  have "mods_match ?b \<longleftrightarrow> held_mask ?b = modmask ?b"
    by blast
  then have yb: "mods_match ?b"
    unfolding h2 mb by blast
  from init_parse_ctrl_period h1 ne na h2 yb show ?thesis
    by blast
qed

section \<open>Read-and-clear edge flags\<close>

lemma poll_pressed_times_clear:
  "fst (poll_pressed_times n (L\<lparr>m_event_press := False\<rparr>)) = replicate n False"
  by (induction n) (simp_all add: poll_pressed_def split_beta)

lemma poll_released_times_clear:
  "fst (poll_released_times n (L\<lparr>m_event_release := False\<rparr>)) = replicate n False"
  by (induction n) (simp_all add: poll_released_def split_beta)

lemma poll_pressed_times_Suc:
  "fst (poll_pressed_times (Suc n) L) = m_event_press L # replicate n False"
  by (simp add: split_beta poll_pressed_def poll_pressed_times_clear)

lemma poll_released_times_Suc:
  "fst (poll_released_times (Suc n) L) = m_event_release L # replicate n False"
  by (simp add: split_beta poll_released_def poll_released_times_clear)

lemma activate_simps:
  "hotkey_active (activate st)" "m_event_press (this (activate st))"
  "m_event_release (this (activate st)) = m_event_release (this st)"
  "m_impl (this (activate st)) = m_impl (this st)"
  "m_callback (this (activate st)) = m_callback (this st)"
  "user (activate st) = (case m_callback (this st) of None \<Rightarrow> user st | Some cb \<Rightarrow> cb True (user st))"
  "os (activate st) = os st" "needs_rescan (activate st) = needs_rescan st"
  by (simp_all add: activate_def Let_def split: option.splits)

lemma deactivate_simps:
  "\<not> hotkey_active (deactivate st)" "m_event_release (this (deactivate st))"
  "m_event_press (this (deactivate st)) = m_event_press (this st)"
  "m_impl (this (deactivate st)) = m_impl (this st)"
  "m_callback (this (deactivate st)) = m_callback (this st)"
  "user (deactivate st) = (case m_callback (this st) of None \<Rightarrow> user st | Some cb \<Rightarrow> cb False (user st))"
  "os (deactivate st) = os st" "needs_rescan (deactivate st) = needs_rescan st"
  by (simp_all add: deactivate_def Let_def split: option.splits)

text \<open>An event sets a flag exactly when it makes the corresponding edge.\<close>

lemma process_event_press_flag:
  "m_event_press (this (process_event ev st)) =
     (m_event_press (this st) \<or> (\<not> hotkey_active st \<and> hotkey_active (process_event ev st)))"
  by (auto simp: process_event_def Let_def activate_simps deactivate_simps)

lemma process_event_release_flag:
  "m_event_release (this (process_event ev st)) =
     (m_event_release (this st) \<or> (hotkey_active st \<and> \<not> hotkey_active (process_event ev st)))"
  by (auto simp: process_event_def Let_def activate_simps deactivate_simps)

lemma observe_pressed_bound:
  "count_list (observe as st) (Pressed_answer True)
     \<le> count_list (observe as st) Activation + of_bool (m_event_press (this st))"
proof (induction as arbitrary: st)
  case Nil
  show ?case by simp
next
  case (Cons a as)
  show ?case
  proof (cases a)
    case (Listener_event ev)
    from Cons.IH[of "process_event ev st"] show ?thesis
      unfolding Listener_event
      by (auto simp: Let_def process_event_press_flag split: if_splits)
  next
    case Call_poll_pressed
    from Cons.IH[of "st\<lparr>this := (this st)\<lparr>m_event_press := False\<rparr>\<rparr>"] show ?thesis
      unfolding Call_poll_pressed by (auto simp: poll_pressed_def)
  next
    case Call_poll_released
    from Cons.IH[of "st\<lparr>this := (this st)\<lparr>m_event_release := False\<rparr>\<rparr>"] show ?thesis
      unfolding Call_poll_released by (auto simp: poll_released_def)
  qed
qed

lemma observe_released_bound:
  "count_list (observe as st) (Released_answer True)
     \<le> count_list (observe as st) Deactivation + of_bool (m_event_release (this st))"
proof (induction as arbitrary: st)
  case Nil
  show ?case by simp
next
  case (Cons a as)
  show ?case
  proof (cases a)
    case (Listener_event ev)
    from Cons.IH[of "process_event ev st"] show ?thesis
      unfolding Listener_event
      by (auto simp: Let_def process_event_release_flag split: if_splits)
  next
    case Call_poll_pressed
    from Cons.IH[of "st\<lparr>this := (this st)\<lparr>m_event_press := False\<rparr>\<rparr>"] show ?thesis
      unfolding Call_poll_pressed by (auto simp: poll_pressed_def)
  next
    case Call_poll_released
    from Cons.IH[of "st\<lparr>this := (this st)\<lparr>m_event_release := False\<rparr>\<rparr>"] show ?thesis
      unfolding Call_poll_released by (auto simp: poll_released_def)
  qed
qed

text \<open>
  Claim C4. The poll accessors read and clear. Right after an activation, any number
  \<open>n + 1\<close> of calls of \<^verbatim>\<open>poll_pressed\<close> in a row answer true once, on the first call, and
  false on the \<open>n\<close> others; \<^verbatim>\<open>poll_released\<close> does the same after a deactivation; a call
  leaves the other flag alone. In every interleaving of listener events and accessor calls,
  the true answers of \<^verbatim>\<open>poll_pressed\<close> are at most as many as the activations (plus one if
  the flag was set at the start), and likewise for \<^verbatim>\<open>poll_released\<close> and the
  deactivations: an edge is observed at most once.
\<close>

theorem poll_read_and_clear:
  "fst (poll_pressed_times (Suc n) (this (activate st))) = True # replicate n False \<and>
   fst (poll_released_times (Suc n) (this (deactivate st))) = True # replicate n False \<and>
   fst (poll_pressed L) = m_event_press L \<and>
   \<not> m_event_press (snd (poll_pressed L)) \<and>
   m_event_release (snd (poll_pressed L)) = m_event_release L \<and>
   fst (poll_released L) = m_event_release L \<and>
   \<not> m_event_release (snd (poll_released L)) \<and>
   m_event_press (snd (poll_released L)) = m_event_press L \<and>
   count_list (observe as st) (Pressed_answer True)
     \<le> count_list (observe as st) Activation + of_bool (m_event_press (this st)) \<and>
   count_list (observe as st) (Released_answer True)
     \<le> count_list (observe as st) Deactivation + of_bool (m_event_release (this st))"
  using observe_pressed_bound[of as st] observe_released_bound[of as st]
  by (simp add: poll_pressed_times_Suc poll_released_times_Suc activate_simps deactivate_simps
        poll_pressed_def poll_released_def del: poll_pressed_times.simps poll_released_times.simps)

theorem poll_read_and_clear_witness:
  "fst (poll_pressed_times (Suc 3) (this (activate ctrl_period_listener)))
     = [True, False, False, False] \<and>
   observe [Listener_event (key_event 29 1), Listener_event (key_event 52 1),
            Call_poll_pressed, Call_poll_pressed, Listener_event (key_event 52 1),
            Call_poll_pressed] ctrl_period_listener
     = [Activation, Pressed_answer True, Pressed_answer False, Pressed_answer False] \<and>
   count_list (observe [Listener_event (key_event 29 1), Listener_event (key_event 52 1),
            Call_poll_pressed, Call_poll_pressed, Listener_event (key_event 52 1),
            Call_poll_pressed] ctrl_period_listener) (Pressed_answer True) \<le> 1"
proof -
  let ?as = "[Listener_event (key_event 29 1), Listener_event (key_event 52 1),
            Call_poll_pressed, Call_poll_pressed, Listener_event (key_event 52 1),
            Call_poll_pressed]"
  have r: "replicate 3 False = [False, False, False]"
    by (simp add: numeral_3_eq_3)
  have a: "fst (poll_pressed_times (Suc 3) (this (activate ctrl_period_listener)))
      = True # replicate 3 False"
    using poll_read_and_clear[of 3 ctrl_period_listener] by blast
  have o: "observe ?as ctrl_period_listener
     = [Activation, Pressed_answer True, Pressed_answer False, Pressed_answer False]"
    by (simp add: ctrl_period_listener_def key_event_def process_event_def EV_KEY_def
          is_modifier_def key_codes update_modifier_def Impl_init_def mods_match_def
          MOD_CTRL_def MOD_SHIFT_def MOD_ALT_def MOD_SUPER_def activate_def deactivate_def
          poll_pressed_def)
  have f: "\<not> m_event_press (this ctrl_period_listener)"
    by (simp add: ctrl_period_listener_def)
  have "count_list (observe ?as ctrl_period_listener) (Pressed_answer True)
     \<le> count_list (observe ?as ctrl_period_listener) Activation
        + of_bool (m_event_press (this ctrl_period_listener))"
    using poll_read_and_clear[of 0 ctrl_period_listener "this ctrl_period_listener" ?as] by blast
  then have c: "count_list (observe ?as ctrl_period_listener) (Pressed_answer True) \<le> 1"
    unfolding o using f by simp
  from a o c show ?thesis unfolding r by blast
qed

section \<open>Releasing a modifier while the hotkey is active\<close>

lemma process_event_modifier_release:
  assumes "ev_type ev = EV_KEY" "ev_value ev = 0" "is_modifier (int (ev_code ev))"
  shows "hotkey_active (process_event ev st) \<longrightarrow> mods_match (m_impl (this (process_event ev st)))"
  using assms by (auto simp: process_event_def Let_def activate_simps deactivate_simps)

lemma process_event_force_deactivate:
  assumes "ev_type ev = EV_KEY" "ev_value ev = 0" "is_modifier (int (ev_code ev))"
    and "hotkey_active st"
    and "\<not> mods_match (update_modifier (int (ev_code ev)) False (m_impl (this st)))"
  shows "\<not> hotkey_active (process_event ev st)"
    and "m_event_release (this (process_event ev st))"
    and "m_event_press (this (process_event ev st)) = m_event_press (this st)"
    and "user (process_event ev st) =
          (case m_callback (this st) of None \<Rightarrow> user st | Some cb \<Rightarrow> cb False (user st))"
    and "m_impl (this (process_event ev st)) = update_modifier (int (ev_code ev)) False (m_impl (this st))"
  using assms
  by (auto simp: process_event_def Let_def activate_simps deactivate_simps split: option.splits)

text \<open>
  Claim C8. When the listener processes a release of one of the eight modifier keys while
  the hotkey is active, and the modifiers no longer match exactly once the released key is
  recorded, the hotkey is deactivated in that same step: \<^verbatim>\<open>hotkey_active\<close> is false
  afterwards, the release flag is set, and the callback, when one is registered, has been
  called once with false; the press flag is untouched. Hence after any release of a modifier
  key an active hotkey still has its exact match: it never stays active once a required
  modifier is gone, whether or not the trigger key was released.
\<close>

theorem modifier_release_deactivates:
  "ev_type ev = EV_KEY \<and> ev_value ev = 0 \<and> is_modifier (int (ev_code ev)) \<longrightarrow>
     (hotkey_active st \<and> \<not> mods_match (update_modifier (int (ev_code ev)) False (m_impl (this st)))
        \<longrightarrow> \<not> hotkey_active (process_event ev st) \<and>
            m_event_release (this (process_event ev st)) \<and>
            m_event_press (this (process_event ev st)) = m_event_press (this st) \<and>
            user (process_event ev st) =
              (case m_callback (this st) of None \<Rightarrow> user st | Some cb \<Rightarrow> cb False (user st))) \<and>
     (hotkey_active (process_event ev st) \<longrightarrow> mods_match (m_impl (this (process_event ev st))))"
proof (intro impI conjI)
  assume a: "ev_type ev = EV_KEY \<and> ev_value ev = 0 \<and> is_modifier (int (ev_code ev))"
  then have k: "ev_type ev = EV_KEY" and v: "ev_value ev = 0" and i: "is_modifier (int (ev_code ev))"
    by simp_all
  show "mods_match (m_impl (this (process_event ev st)))" if "hotkey_active (process_event ev st)"
    using process_event_modifier_release[OF k v i, of st] that by simp
  assume b: "hotkey_active st \<and> \<not> mods_match (update_modifier (int (ev_code ev)) False (m_impl (this st)))"
  then have h: "hotkey_active st"
    and n: "\<not> mods_match (update_modifier (int (ev_code ev)) False (m_impl (this st)))"
    by simp_all
  show "\<not> hotkey_active (process_event ev st)"
    by (rule process_event_force_deactivate(1)[OF k v i h n])
  show "m_event_release (this (process_event ev st))"
    by (rule process_event_force_deactivate(2)[OF k v i h n])
  show "m_event_press (this (process_event ev st)) = m_event_press (this st)"
    by (rule process_event_force_deactivate(3)[OF k v i h n])
  show "user (process_event ev st) =
          (case m_callback (this st) of None \<Rightarrow> user st | Some cb \<Rightarrow> cb False (user st))"
    by (rule process_event_force_deactivate(4)[OF k v i h n])
qed

text \<open>The concrete run: control and period are pressed, which activates the hotkey; then
  control is released while period is still down.\<close>

theorem modifier_release_deactivates_witness:
  "hotkey_active (drain [Read_event (key_event 29 1), Read_event (key_event 52 1)] ctrl_period_listener) \<and>
   ev_type (key_event 29 0) = EV_KEY \<and> ev_value (key_event 29 0) = 0 \<and>
   is_modifier (int (ev_code (key_event 29 0))) \<and>
   \<not> mods_match (update_modifier (int (ev_code (key_event 29 0))) False
        (m_impl (this (drain [Read_event (key_event 29 1), Read_event (key_event 52 1)] ctrl_period_listener)))) \<and>
   \<not> hotkey_active (process_event (key_event 29 0)
        (drain [Read_event (key_event 29 1), Read_event (key_event 52 1)] ctrl_period_listener)) \<and>
   m_event_release (this (process_event (key_event 29 0)
        (drain [Read_event (key_event 29 1), Read_event (key_event 52 1)] ctrl_period_listener))) \<and>
   user (process_event (key_event 29 0)
        (drain [Read_event (key_event 29 1), Read_event (key_event 52 1)] ctrl_period_listener))
     = [True, False]"
proof -
  define st where "st = drain [Read_event (key_event 29 1), Read_event (key_event 52 1)] ctrl_period_listener"
  have st: "st = \<lparr>this = \<lparr>m_impl = Impl_init\<lparr>fds := [3], key_code := KEY_DOT, modmask := MOD_CTRL, ctrl_l := True\<rparr>,
             m_running = True, m_event_press = True, m_event_release = False,
             m_callback = Some (\<lambda>b log. log @ [b])\<rparr>,
     hotkey_active = True, needs_rescan = False, user = [True],
     os = \<lparr>open_fds = [0, 1, 2, 3], trace = []\<rparr>\<rparr>"
    unfolding st_def
    by (simp add: ctrl_period_listener_def key_event_def process_event_def EV_KEY_def
          is_modifier_def key_codes update_modifier_def Impl_init_def mods_match_def
          MOD_CTRL_def MOD_SHIFT_def MOD_ALT_def MOD_SUPER_def activate_def deactivate_def)
  have pre: "hotkey_active st" "ev_type (key_event 29 0) = EV_KEY" "ev_value (key_event 29 0) = 0"
    "is_modifier (int (ev_code (key_event 29 0)))"
    "\<not> mods_match (update_modifier (int (ev_code (key_event 29 0))) False (m_impl (this st)))"
    by (simp_all add: st key_event_def EV_KEY_def is_modifier_def key_codes update_modifier_def
          Impl_init_def mods_match_def MOD_CTRL_def MOD_SHIFT_def MOD_ALT_def MOD_SUPER_def)
  from modifier_release_deactivates[of "key_event 29 0" st] pre
  have "\<not> hotkey_active (process_event (key_event 29 0) st)"
    "m_event_release (this (process_event (key_event 29 0) st))"
    "user (process_event (key_event 29 0) st) =
       (case m_callback (this st) of None \<Rightarrow> user st | Some cb \<Rightarrow> cb False (user st))"
    by simp_all
  moreover have "(case m_callback (this st) of None \<Rightarrow> user st | Some cb \<Rightarrow> cb False (user st)) = [True, False]"
    by (simp add: st)
  ultimately show ?thesis
    using pre unfolding st_def by simp
qed

section \<open>Rescan after a device is lost\<close>

lemma lowest_free_candidates:
  "filter (\<lambda>n. n \<notin> set tbl) (map int [0..<Suc (length tbl)]) \<noteq> []"
proof
  let ?cands = "map int [0..<Suc (length tbl)]"
  assume "filter (\<lambda>n. n \<notin> set tbl) ?cands = []"
  then have "\<forall>x\<in>set ?cands. x \<in> set tbl"
    by (simp only: filter_empty_conv) blast
  then have "set ?cands \<subseteq> set tbl"
    by blast
  then have "card (set ?cands) \<le> card (set tbl)"
    by (intro card_mono) simp_all
  moreover have "distinct ?cands"
    by (simp only: distinct_map distinct_upt) (simp add: inj_on_def)
  then have "card (set ?cands) = length ?cands"
    by (rule distinct_card)
  moreover have "length ?cands = Suc (length tbl)"
    by simp
  moreover have "card (set tbl) \<le> length tbl"
    by (rule card_length)
  ultimately show False by simp
qed

lemma lowest_free_fresh: "lowest_free tbl \<notin> set tbl"
proof -
  have "hd (filter (\<lambda>n. n \<notin> set tbl) (map int [0..<Suc (length tbl)]))
      \<in> set (filter (\<lambda>n. n \<notin> set tbl) (map int [0..<Suc (length tbl)]))"
    using lowest_free_candidates by (rule hd_in_set)
  then show ?thesis
    unfolding lowest_free_def by (simp only: set_filter) blast
qed

lemma lowest_free_nonneg: "0 \<le> lowest_free tbl"
proof -
  have "hd (filter (\<lambda>n. n \<notin> set tbl) (map int [0..<Suc (length tbl)]))
      \<in> set (filter (\<lambda>n. n \<notin> set tbl) (map int [0..<Suc (length tbl)]))"
    using lowest_free_candidates by (rule hd_in_set)
  then have "lowest_free tbl \<in> set (map int [0..<Suc (length tbl)])"
    unfolding lowest_free_def by (simp only: set_filter) blast
  then show ?thesis by auto
qed

lemma fold_sys_close:
  "open_fds (fold sys_close xs ost) = filter (\<lambda>fd. fd \<notin> set xs) (open_fds ost)"
  "trace (fold sys_close xs ost) = trace ost @ map Sys_close xs"
  by (induction xs arbitrary: ost) (auto simp: sys_close_def removeAll_filter_not_eq intro: filter_cong)

lemma close_all_fds_simps:
  "fst (close_all_fds m ost) = m\<lparr>fds := []\<rparr>"
  "open_fds (snd (close_all_fds m ost)) = filter (\<lambda>fd. fd \<notin> set (fds m)) (open_fds ost)"
  "trace (snd (close_all_fds m ost)) = trace ost @ map Sys_close (fds m)"
  by (simp_all add: close_all_fds_def fold_sys_close)

lemma scan_entry_inv: "scan_inv base st \<Longrightarrow> scan_inv base (scan_entry ent st)"
proof -
  assume inv: "scan_inv base st"
  obtain m ost where st: "st = (m, ost)" by (cases st)
  have fresh: "lowest_free (open_fds ost) \<notin> set (open_fds ost)" by (rule lowest_free_fresh)
  have nn: "\<not> lowest_free (open_fds ost) < 0" using lowest_free_nonneg[of "open_fds ost"] by simp
  show ?thesis
    using inv fresh nn unfolding st scan_inv_def scan_entry_def sys_open_def sys_close_def
    by (auto simp: Let_def split: option.splits)
qed

lemma scan_entry_frame:
  "fst (scan_entry ent st) = (fst st)\<lparr>fds := fds (fst (scan_entry ent st))\<rparr>"
  unfolding scan_entry_def sys_open_def
  by (cases st) (auto simp: Let_def split: option.splits prod.splits)

lemma scan_entry_trace:
  "\<exists>more. trace (snd (scan_entry ent st)) = trace (snd st) @ more"
  unfolding scan_entry_def sys_open_def sys_close_def
  by (cases st) (auto simp: Let_def split: option.splits prod.splits)

lemma fold_scan_inv: "scan_inv base st \<Longrightarrow> scan_inv base (fold scan_entry ents st)"
  by (induction ents arbitrary: st) (simp_all add: scan_entry_inv)

lemma fold_scan_frame:
  "fst (fold scan_entry ents st) = (fst st)\<lparr>fds := fds (fst (fold scan_entry ents st))\<rparr>"
proof (induction ents arbitrary: st)
  case Nil
  show ?case by simp
next
  case (Cons e es)
  have "fst (fold scan_entry es (scan_entry e st)) = (fst (scan_entry e st))\<lparr>fds := fds (fst (fold scan_entry es (scan_entry e st)))\<rparr>"
    by (rule Cons.IH)
  also have "\<dots> = (fst st)\<lparr>fds := fds (fst (fold scan_entry es (scan_entry e st)))\<rparr>"
    by (subst scan_entry_frame) simp
  finally show ?case by simp
qed

lemma fold_scan_trace:
  "\<exists>more. trace (snd (fold scan_entry ents st)) = trace (snd st) @ more"
proof (induction ents arbitrary: st)
  case Nil
  show ?case by simp
next
  case (Cons e es)
  obtain m1 where m1: "trace (snd (scan_entry e st)) = trace (snd st) @ m1"
    using scan_entry_trace by blast
  obtain m2 where "trace (snd (fold scan_entry es (scan_entry e st))) = trace (snd (scan_entry e st)) @ m2"
    using Cons.IH by blast
  then show ?case using m1 by simp
qed

lemma open_keyboards_props:
  assumes ok: "open_keyboards dir m ost = (ok, m', ost')"
  shows "m' = m\<lparr>fds := fds m'\<rparr> \<and>
      set (open_fds ost') = (set (open_fds ost) - set (fds m)) \<union> set (fds m') \<and>
      (set (open_fds ost) - set (fds m)) \<inter> set (fds m') = {} \<and>
      distinct (fds m') \<and>
      (\<exists>more. trace ost' = trace ost @ map Sys_close (fds m) @ Sys_opendir # more) \<and>
      ok = (fds m' \<noteq> [])"
proof (cases dir)
  case None
  with ok have "m' = m\<lparr>fds := []\<rparr>" "\<not> ok"
    "ost' = (fold sys_close (fds m) ost)\<lparr>trace := trace ost @ map Sys_close (fds m) @ [Sys_opendir]\<rparr>"
    by (simp_all add: open_keyboards_def close_all_fds_def fold_sys_close)
  then show ?thesis
    by (auto simp: fold_sys_close)
next
  case (Some ents)
  let ?base = "set (open_fds ost) - set (fds m)"
  let ?m1 = "m\<lparr>fds := []\<rparr>"
  let ?os2 = "(fold sys_close (fds m) ost)\<lparr>trace := trace ost @ map Sys_close (fds m) @ [Sys_opendir]\<rparr>"
  have inv0: "scan_inv ?base (?m1, ?os2)"
    by (auto simp: scan_inv_def fold_sys_close)
  obtain m3 os3 where f: "fold scan_entry ents (?m1, ?os2) = (m3, os3)"
    by (cases "fold scan_entry ents (?m1, ?os2)")
  from ok Some f have r: "m' = m3" "ost' = os3\<lparr>trace := trace os3 @ [Sys_closedir]\<rparr>" "ok = (fds m3 \<noteq> [])"
    by (auto simp: open_keyboards_def close_all_fds_def fold_sys_close)
  from fold_scan_inv[OF inv0, of ents] f have inv: "scan_inv ?base (m3, os3)"
    by simp
  from fold_scan_frame[of ents "(?m1, ?os2)"] f have fr: "m3 = m\<lparr>fds := fds m3\<rparr>"
    by simp
  from fold_scan_trace[of ents "(?m1, ?os2)"] f
  obtain more where "trace os3 = (trace ost @ map Sys_close (fds m) @ [Sys_opendir]) @ more"
    by auto
  then have tr: "trace ost' = trace ost @ map Sys_close (fds m) @ Sys_opendir # (more @ [Sys_closedir])"
    using r by simp
  have "set (open_fds ost') = ?base \<union> set (fds m')" "?base \<inter> set (fds m') = {}" "distinct (fds m')"
    using inv r unfolding scan_inv_def by simp_all
  moreover have "m' = m\<lparr>fds := fds m'\<rparr>" using fr r by simp
  moreover have "\<exists>more. trace ost' = trace ost @ map Sys_close (fds m) @ Sys_opendir # more"
    using tr by blast
  moreover have "ok = (fds m' \<noteq> [])" using r by simp
  ultimately show ?thesis by blast
qed

lemma rescan_iteration:
  fixes dir reads and st :: "'u listen_state"
  assumes "needs_rescan st"
  defines "st' \<equiv> listen_iteration dir reads st"
  defines "m \<equiv> m_impl (this st)"
  defines "m' \<equiv> m_impl (this st')"
  shows "m' = m\<lparr>ctrl_l := False, ctrl_r := False, shift_l := False, shift_r := False,
               alt_l := False, alt_r := False, super_l := False, super_r := False, fds := fds m'\<rparr>"
    and "\<not> hotkey_active st'"
    and "this st' = (this st)\<lparr>m_impl := m'\<rparr>"
    and "user st' = user st"
    and "needs_rescan st' = (fds m' = [])"
    and "set (open_fds (os st')) = (set (open_fds (os st)) - set (fds m)) \<union> set (fds m')"
    and "(set (open_fds (os st)) - set (fds m)) \<inter> set (fds m') = {}"
    and "distinct (fds m')"
    and "\<exists>more. trace (os st') = trace (os st) @ map Sys_close (fds m) @ Sys_opendir # more"
proof -
  let ?m1 = "m\<lparr>ctrl_l := False, ctrl_r := False, shift_l := False, shift_r := False,
               alt_l := False, alt_r := False, super_l := False, super_r := False\<rparr>"
  obtain ok m2 os2 where o: "open_keyboards dir ?m1 (os st) = (ok, m2, os2)"
    by (cases "open_keyboards dir ?m1 (os st)")
  have st': "st' = st\<lparr>needs_rescan := \<not> ok, this := (this st)\<lparr>m_impl := m2\<rparr>, hotkey_active := False, os := os2\<rparr>"
    using assms(1) o unfolding st'_def m_def listen_iteration_def
    by (simp add: Let_def)
  then have m': "m' = m2" unfolding m'_def by simp
  note p = open_keyboards_props[OF o]
  from p have fr: "m2 = ?m1\<lparr>fds := fds m2\<rparr>" by blast
  show "m' = m\<lparr>ctrl_l := False, ctrl_r := False, shift_l := False, shift_r := False,
               alt_l := False, alt_r := False, super_l := False, super_r := False, fds := fds m'\<rparr>"
    unfolding m' using fr by simp
  show "\<not> hotkey_active st'" "user st' = user st" by (simp_all add: st')
  show "this st' = (this st)\<lparr>m_impl := m'\<rparr>" by (simp add: st' m')
  show "needs_rescan st' = (fds m' = [])" using p by (simp add: st' m')
  show "set (open_fds (os st')) = (set (open_fds (os st)) - set (fds m)) \<union> set (fds m')"
    using p by (simp add: st' m')
  show "(set (open_fds (os st)) - set (fds m)) \<inter> set (fds m') = {}"
    using p by (simp add: st' m')
  show "distinct (fds m')" using p by (simp add: m')
  show "\<exists>more. trace (os st') = trace (os st) @ map Sys_close (fds m) @ Sys_opendir # more"
    using p by (simp add: st' m')
qed

text \<open>
  Claim C7. An iteration of the background loop that starts with \<^verbatim>\<open>needs_rescan\<close> set
  ends with all eight modifier booleans false and \<^verbatim>\<open>hotkey_active\<close> false, whatever the
  directory holds; it matches no event (the edge flags and the callback's state are
  untouched) and keeps the parsed hotkey. Its system calls begin with the close of every
  handle held before, in order, and only then \<^verbatim>\<open>opendir\<close>: nothing is opened before all
  old handles are closed. Afterwards the descriptors open are exactly those that were open
  and not held by the listener, plus the handles it holds now, which are new and distinct:
  no handle leaks. The flag is set again exactly when no keyboard was found.
\<close>

theorem rescan_resets_and_reopens:
  "needs_rescan st \<longrightarrow>
     \<not> ctrl_l (m_impl (this (listen_iteration dir reads st))) \<and>
     \<not> ctrl_r (m_impl (this (listen_iteration dir reads st))) \<and>
     \<not> shift_l (m_impl (this (listen_iteration dir reads st))) \<and>
     \<not> shift_r (m_impl (this (listen_iteration dir reads st))) \<and>
     \<not> alt_l (m_impl (this (listen_iteration dir reads st))) \<and>
     \<not> alt_r (m_impl (this (listen_iteration dir reads st))) \<and>
     \<not> super_l (m_impl (this (listen_iteration dir reads st))) \<and>
     \<not> super_r (m_impl (this (listen_iteration dir reads st))) \<and>
     \<not> hotkey_active (listen_iteration dir reads st) \<and>
     key_code (m_impl (this (listen_iteration dir reads st))) = key_code (m_impl (this st)) \<and>
     modmask (m_impl (this (listen_iteration dir reads st))) = modmask (m_impl (this st)) \<and>
     m_event_press (this (listen_iteration dir reads st)) = m_event_press (this st) \<and>
     m_event_release (this (listen_iteration dir reads st)) = m_event_release (this st) \<and>
     user (listen_iteration dir reads st) = user st \<and>
     take (length (trace (os st))) (trace (os (listen_iteration dir reads st))) = trace (os st) \<and>
     take (Suc (length (fds (m_impl (this st)))))
          (drop (length (trace (os st))) (trace (os (listen_iteration dir reads st))))
        = map Sys_close (fds (m_impl (this st))) @ [Sys_opendir] \<and>
     set (open_fds (os (listen_iteration dir reads st)))
        = (set (open_fds (os st)) - set (fds (m_impl (this st))))
          \<union> set (fds (m_impl (this (listen_iteration dir reads st)))) \<and>
     (set (open_fds (os st)) - set (fds (m_impl (this st))))
          \<inter> set (fds (m_impl (this (listen_iteration dir reads st)))) = {} \<and>
     distinct (fds (m_impl (this (listen_iteration dir reads st)))) \<and>
     needs_rescan (listen_iteration dir reads st)
        = (fds (m_impl (this (listen_iteration dir reads st))) = [])"
proof
  assume n: "needs_rescan st"
  let ?st' = "listen_iteration dir reads st"
  let ?m = "m_impl (this st)" and ?m' = "m_impl (this ?st')"
  note r = rescan_iteration[OF n, of dir reads]
  from r(9) obtain more where
    tr: "trace (os ?st') = trace (os st) @ map Sys_close (fds ?m) @ Sys_opendir # more"
    by blast
  have t1: "take (length (trace (os st))) (trace (os ?st')) = trace (os st)"
    unfolding tr by simp
  have t2: "take (Suc (length (fds ?m))) (drop (length (trace (os st))) (trace (os ?st')))
      = map Sys_close (fds ?m) @ [Sys_opendir]"
    unfolding tr by simp
  have m: "\<not> ctrl_l ?m'" "\<not> ctrl_r ?m'" "\<not> shift_l ?m'" "\<not> shift_r ?m'"
     "\<not> alt_l ?m'" "\<not> alt_r ?m'" "\<not> super_l ?m'" "\<not> super_r ?m'"
     "key_code ?m' = key_code ?m" "modmask ?m' = modmask ?m"
    by (subst r(1), simp)+
  have f: "m_event_press (this ?st') = m_event_press (this st)"
      "m_event_release (this ?st') = m_event_release (this st)"
    by (subst r(3), simp)+
  from m f r(2) r(4) t1 t2 r(6) r(7) r(8) r(5)
  show "\<not> ctrl_l ?m' \<and> \<not> ctrl_r ?m' \<and> \<not> shift_l ?m' \<and> \<not> shift_r ?m' \<and>
     \<not> alt_l ?m' \<and> \<not> alt_r ?m' \<and> \<not> super_l ?m' \<and> \<not> super_r ?m' \<and>
     \<not> hotkey_active ?st' \<and> key_code ?m' = key_code ?m \<and> modmask ?m' = modmask ?m \<and>
     m_event_press (this ?st') = m_event_press (this st) \<and>
     m_event_release (this ?st') = m_event_release (this st) \<and>
     user ?st' = user st \<and>
     take (length (trace (os st))) (trace (os ?st')) = trace (os st) \<and>
     take (Suc (length (fds ?m))) (drop (length (trace (os st))) (trace (os ?st')))
        = map Sys_close (fds ?m) @ [Sys_opendir] \<and>
     set (open_fds (os ?st')) = (set (open_fds (os st)) - set (fds ?m)) \<union> set (fds ?m') \<and>
     (set (open_fds (os st)) - set (fds ?m)) \<inter> set (fds ?m') = {} \<and>
     distinct (fds ?m') \<and>
     needs_rescan ?st' = (fds ?m' = [])"
    by blast
qed

lemma lost_keyboard_rescan:
  "fds (m_impl (this (listen_iteration (Some dev_input) (\<lambda>fd. []) lost_keyboard))) = [3]"
  "open_fds (os (listen_iteration (Some dev_input) (\<lambda>fd. []) lost_keyboard)) = [0, 1, 2, 5, 3]"
  "trace (os (listen_iteration (Some dev_input) (\<lambda>fd. []) lost_keyboard)) =
     [Sys_close 3, Sys_close 4, Sys_opendir, Sys_open ''/dev/input/event0'', Sys_close 3,
      Sys_open ''/dev/input/event1'', Sys_open ''/dev/input/event2'', Sys_closedir]"
  by code_simp+

theorem rescan_resets_and_reopens_witness:
  "needs_rescan lost_keyboard \<and> ctrl_l (m_impl (this lost_keyboard)) \<and>
   hotkey_active lost_keyboard \<and>
   \<not> ctrl_l (m_impl (this (listen_iteration (Some dev_input) (\<lambda>fd. []) lost_keyboard))) \<and>
   \<not> shift_r (m_impl (this (listen_iteration (Some dev_input) (\<lambda>fd. []) lost_keyboard))) \<and>
   \<not> hotkey_active (listen_iteration (Some dev_input) (\<lambda>fd. []) lost_keyboard) \<and>
   \<not> needs_rescan (listen_iteration (Some dev_input) (\<lambda>fd. []) lost_keyboard) \<and>
   fds (m_impl (this (listen_iteration (Some dev_input) (\<lambda>fd. []) lost_keyboard))) = [3] \<and>
   open_fds (os (listen_iteration (Some dev_input) (\<lambda>fd. []) lost_keyboard)) = [0, 1, 2, 5, 3] \<and>
   trace (os (listen_iteration (Some dev_input) (\<lambda>fd. []) lost_keyboard)) =
     [Sys_close 3, Sys_close 4, Sys_opendir, Sys_open ''/dev/input/event0'', Sys_close 3,
      Sys_open ''/dev/input/event1'', Sys_open ''/dev/input/event2'', Sys_closedir]"
proof -
  have pre: "needs_rescan lost_keyboard" "ctrl_l (m_impl (this lost_keyboard))"
    "hotkey_active lost_keyboard"
    by (simp_all add: lost_keyboard_def)
  from rescan_resets_and_reopens[of lost_keyboard "Some dev_input" "\<lambda>fd. []"] pre(1)
  have "\<not> ctrl_l (m_impl (this (listen_iteration (Some dev_input) (\<lambda>fd. []) lost_keyboard)))"
    "\<not> shift_r (m_impl (this (listen_iteration (Some dev_input) (\<lambda>fd. []) lost_keyboard)))"
    "\<not> hotkey_active (listen_iteration (Some dev_input) (\<lambda>fd. []) lost_keyboard)"
    "needs_rescan (listen_iteration (Some dev_input) (\<lambda>fd. []) lost_keyboard)
        = (fds (m_impl (this (listen_iteration (Some dev_input) (\<lambda>fd. []) lost_keyboard))) = [])"
    by blast+
  with pre lost_keyboard_rescan show ?thesis
    by simp
qed

section \<open>The key-name resolver\<close>

lemma of_char_tolower:
  "(of_char (tolower c) :: nat) = (if 65 \<le> (of_char c :: nat) \<and> (of_char c :: nat) \<le> 90 then of_char c + 32 else of_char c)"
  by (simp add: tolower_def Let_def)

lemma tolower_idem: "tolower (tolower c) = tolower c"
proof (cases "65 \<le> (of_char c :: nat) \<and> (of_char c :: nat) \<le> 90")
  case True
  then have "(of_char (tolower c) :: nat) = of_char c + 32"
    by (simp add: of_char_tolower)
  with True have "\<not> (65 \<le> (of_char (tolower c) :: nat) \<and> (of_char (tolower c) :: nat) \<le> 90)"
    by simp
  then show ?thesis
    unfolding tolower_def[of "tolower c"] Let_def by (simp only: if_False)
next
  case False
  then have "tolower c = c"
    unfolding tolower_def Let_def by (simp only: if_False)
  then show ?thesis by simp
qed

lemma map_tolower_idem: "map tolower (map tolower s) = map tolower s"
  by (simp add: tolower_idem)

lemma name_to_evdev_lower: "name_to_evdev (map tolower name) = name_to_evdev name"
  unfolding name_to_evdev_def map_tolower_idem ..

lemma name_to_evdev_unrecognized:
  assumes "\<not> single_letter (map tolower name)" "\<not> single_digit (map tolower name)"
    and "map tolower name \<notin> set named_key_names"
  shows "name_to_evdev name =
     (case fkey_number (map tolower name) of
        Not_digit \<Rightarrow> Some (- 1)
      | Overflow \<Rightarrow> None
      | Number n \<Rightarrow> if 1 \<le> n \<and> n \<le> 12 then Some (fkey_code n) else Some (- 1))"
proof -
  define lower where "lower = map tolower name"
  from assms have a: "\<not> single_letter lower" "\<not> single_digit lower" "lower \<notin> set named_key_names"
    unfolding lower_def by simp_all
  from a(1) have l: "\<not> (length lower = 1 \<and> (97::nat) \<le> of_char (lower ! 0) \<and> (of_char (lower ! 0) :: nat) \<le> 122)"
    unfolding single_letter_def .
  from a(2) have d: "\<not> (length lower = 1 \<and> (48::nat) \<le> of_char (lower ! 0) \<and> (of_char (lower ! 0) :: nat) \<le> 57)"
    unfolding single_digit_def .
  from a(3) have n: "\<forall>x \<in> set named_key_names. lower \<noteq> x" by blast
  show ?thesis
    unfolding name_to_evdev_def Let_def lower_def[symmetric] fkey_number_def
    using n unfolding named_key_names_def
    by (simp only: l d if_False) (auto simp: fkey_code_def split: fkey_scan.splits)
qed




lemma fkeys_lower:
  "map name_to_evdev [''f1'', ''f2'', ''f3'', ''f4'', ''f5'', ''f6'', ''f7'', ''f8'', ''f9'', ''f10'']
     = map (\<lambda>n. Some (KEY_F1 + (n - 1))) [1, 2, 3, 4, 5, 6, 7, 8, 9, 10]"
  by code_simp

lemma fkeys_upper:
  "map name_to_evdev [''F1'', ''F2'', ''F3'', ''F4'', ''F5'', ''F6'', ''F7'', ''F8'', ''F9'', ''F10'']
     = map (\<lambda>n. Some (KEY_F1 + (n - 1))) [1, 2, 3, 4, 5, 6, 7, 8, 9, 10]"
  by code_simp

lemma fkeys_special:
  "name_to_evdev ''f11'' = Some KEY_F11" "name_to_evdev ''f12'' = Some KEY_F12"
  "name_to_evdev ''F11'' = Some KEY_F11" "name_to_evdev ''F12'' = Some KEY_F12"
  "name_to_evdev ''f01'' = Some KEY_F1" "name_to_evdev ''f012'' = Some KEY_F12"
  "KEY_F11 \<noteq> KEY_F1 + 10" "KEY_F12 \<noteq> KEY_F1 + 11"
  by code_simp+

lemma digit_range: "isdigit c \<Longrightarrow> 0 \<le> int (of_char c) - 48 \<and> int (of_char c) - 48 \<le> 9"
  by (auto simp: isdigit_def Let_def)

lemma decimal_nonneg: "list_all isdigit p \<Longrightarrow> 0 \<le> decimal p"
proof (induction p)
  case Nil
  show ?case by simp
next
  case (Cons c p)
  then have "0 \<le> int (of_char c) - 48" and "0 \<le> decimal p"
    using digit_range[of c] by simp_all
  then have "0 \<le> (int (of_char c) - 48) * 10 ^ length p + decimal p"
    by (intro add_nonneg_nonneg mult_nonneg_nonneg) simp_all
  then show ?case by simp
qed

lemma takeWhile_all: "list_all P (takeWhile P xs)"
  by (induction xs) simp_all

lemma fkey_loop_decimal:
  "0 \<le> n \<Longrightarrow> n \<le> INT_MAX \<Longrightarrow>
   fkey_loop cs n =
     (if n * 10 ^ length (takeWhile isdigit cs) + decimal (takeWhile isdigit cs) > INT_MAX then Overflow
      else if takeWhile isdigit cs = cs
           then Number (n * 10 ^ length (takeWhile isdigit cs) + decimal (takeWhile isdigit cs))
      else Not_digit)"
proof (induction cs arbitrary: n)
  case Nil
  then show ?case by simp
next
  case (Cons c cs)
  show ?case
  proof (cases "isdigit c")
    case False
    with Cons.prems show ?thesis by simp
  next
    case True
    let ?d = "int (of_char c) - 48"
    let ?n' = "n * 10 + ?d"
    let ?p = "takeWhile isdigit cs"
    have d: "0 \<le> ?d" using digit_range[OF True] by simp
    have n': "0 \<le> ?n'" using Cons.prems(1) d by simp
    have v: "n * 10 ^ length (takeWhile isdigit (c # cs)) + decimal (takeWhile isdigit (c # cs))
        = ?n' * 10 ^ length ?p + decimal ?p"
      using True by (simp add: algebra_simps)
    have tw: "(takeWhile isdigit (c # cs) = c # cs) = (?p = cs)"
      using True by simp
    show ?thesis
    proof (cases "?n' > INT_MAX")
      case over: True
      have "0 \<le> decimal ?p" by (rule decimal_nonneg[OF takeWhile_all])
      moreover have "?n' * 1 \<le> ?n' * 10 ^ length ?p"
        by (rule mult_left_mono[OF _ n']) simp
      ultimately have "?n' * 10 ^ length ?p + decimal ?p > INT_MAX"
        using over by simp
      then show ?thesis
        unfolding v using True over by (simp add: Let_def)
    next
      case False
      then have le: "?n' \<le> INT_MAX" by simp
      have "fkey_loop (c # cs) n = fkey_loop cs ?n'"
        using True False by (simp add: Let_def)
      also note Cons.IH[OF n' le]
      finally show ?thesis
        unfolding v tw .
    qed
  qed
qed

lemma fkey_number_decimal:
  assumes "lower = CHR ''f'' # ds" "ds \<noteq> []"
  shows "fkey_number lower =
     (if decimal (takeWhile isdigit ds) > INT_MAX then Overflow
      else if list_all isdigit ds then Number (decimal ds)
      else Not_digit)"
proof -
  have l: "length lower \<ge> 2 \<and> lower ! 0 = CHR ''f''"
    using assms by (cases ds) simp_all
  have a: "(takeWhile isdigit ds = ds) = list_all isdigit ds"
    by (simp add: takeWhile_eq_all_conv list_all_iff)
  have "fkey_number lower = fkey_loop ds 0"
    unfolding fkey_number_def using l assms(1) by simp
  also have "\<dots> = (if 0 * 10 ^ length (takeWhile isdigit ds) + decimal (takeWhile isdigit ds) > INT_MAX then Overflow
      else if takeWhile isdigit ds = ds
           then Number (0 * 10 ^ length (takeWhile isdigit ds) + decimal (takeWhile isdigit ds))
      else Not_digit)"
    by (rule fkey_loop_decimal) (simp_all add: INT_MAX_def)
  finally have e: "fkey_number lower =
     (if decimal (takeWhile isdigit ds) > INT_MAX then Overflow
      else if takeWhile isdigit ds = ds then Number (decimal (takeWhile isdigit ds))
      else Not_digit)"
    by simp
  show ?thesis
  proof (cases "list_all isdigit ds")
    case True
    then have tw: "takeWhile isdigit ds = ds" using a by simp
    from e True show ?thesis unfolding tw by simp
  next
    case False
    then have ne: "(takeWhile isdigit ds = ds) = False" using a by simp
    show ?thesis unfolding e ne using False by (simp only: if_False)
  qed
qed

lemma fkey_number_not_f:
  assumes "\<forall>ds. lower \<noteq> CHR ''f'' # ds"
  shows "fkey_number lower = Not_digit"
proof (cases lower)
  case Nil
  then show ?thesis by (simp add: fkey_number_def)
next
  case (Cons c cs)
  with assms have "c \<noteq> CHR ''f''" by simp
  with Cons show ?thesis by (simp add: fkey_number_def)
qed

lemma single_letter_f: "lower = [CHR ''f''] \<Longrightarrow> single_letter lower"
  by (simp add: single_letter_def)

lemma name_to_evdev_by_form:
  assumes u: "\<not> single_letter (map tolower name)" "\<not> single_digit (map tolower name)"
      "map tolower name \<notin> set named_key_names"
  shows "(\<forall>ds. map tolower name \<noteq> CHR ''f'' # ds) \<longrightarrow> name_to_evdev name = Some (- 1)"
    and "map tolower name = CHR ''f'' # ds \<and> \<not> list_all isdigit ds \<and>
         decimal (takeWhile isdigit ds) \<le> INT_MAX \<longrightarrow> name_to_evdev name = Some (- 1)"
    and "map tolower name = CHR ''f'' # ds \<and> list_all isdigit ds \<and> decimal ds \<le> INT_MAX \<longrightarrow>
          (1 \<le> decimal ds \<and> decimal ds \<le> 10 \<longrightarrow> name_to_evdev name = Some (KEY_F1 + (decimal ds - 1))) \<and>
          (decimal ds = 11 \<longrightarrow> name_to_evdev name = Some KEY_F11) \<and>
          (decimal ds = 12 \<longrightarrow> name_to_evdev name = Some KEY_F12) \<and>
          (decimal ds < 1 \<or> 12 < decimal ds \<longrightarrow> name_to_evdev name = Some (- 1))"
    and "map tolower name = CHR ''f'' # ds \<and> INT_MAX < decimal (takeWhile isdigit ds) \<longrightarrow>
          name_to_evdev name = None"
proof -
  note r = name_to_evdev_unrecognized[OF u]
  show "(\<forall>ds. map tolower name \<noteq> CHR ''f'' # ds) \<longrightarrow> name_to_evdev name = Some (- 1)"
    using r fkey_number_not_f[of "map tolower name"] by simp
  have ne: "ds \<noteq> []" if "map tolower name = CHR ''f'' # ds"
    using that u(1) single_letter_f[of "map tolower name"] by auto
  have n: "fkey_number (map tolower name) =
     (if decimal (takeWhile isdigit ds) > INT_MAX then Overflow
      else if list_all isdigit ds then Number (decimal ds)
      else Not_digit)" if "map tolower name = CHR ''f'' # ds"
    using fkey_number_decimal[OF that ne[OF that]] .
  show "map tolower name = CHR ''f'' # ds \<and> \<not> list_all isdigit ds \<and>
         decimal (takeWhile isdigit ds) \<le> INT_MAX \<longrightarrow> name_to_evdev name = Some (- 1)"
    using r n by auto
  show "map tolower name = CHR ''f'' # ds \<and> INT_MAX < decimal (takeWhile isdigit ds) \<longrightarrow>
          name_to_evdev name = None"
    using r n by auto
  show "map tolower name = CHR ''f'' # ds \<and> list_all isdigit ds \<and> decimal ds \<le> INT_MAX \<longrightarrow>
          (1 \<le> decimal ds \<and> decimal ds \<le> 10 \<longrightarrow> name_to_evdev name = Some (KEY_F1 + (decimal ds - 1))) \<and>
          (decimal ds = 11 \<longrightarrow> name_to_evdev name = Some KEY_F11) \<and>
          (decimal ds = 12 \<longrightarrow> name_to_evdev name = Some KEY_F12) \<and>
          (decimal ds < 1 \<or> 12 < decimal ds \<longrightarrow> name_to_evdev name = Some (- 1))"
  proof (intro impI)
    assume a: "map tolower name = CHR ''f'' # ds \<and> list_all isdigit ds \<and> decimal ds \<le> INT_MAX"
    then have tw: "takeWhile isdigit ds = ds"
      by (simp add: takeWhile_eq_all_conv list_all_iff)
    from a n have "fkey_number (map tolower name) = Number (decimal ds)"
      unfolding tw by simp
    with r have "name_to_evdev name =
        (if 1 \<le> decimal ds \<and> decimal ds \<le> 12 then Some (fkey_code (decimal ds)) else Some (- 1))"
      by simp
    then show "(1 \<le> decimal ds \<and> decimal ds \<le> 10 \<longrightarrow> name_to_evdev name = Some (KEY_F1 + (decimal ds - 1))) \<and>
          (decimal ds = 11 \<longrightarrow> name_to_evdev name = Some KEY_F11) \<and>
          (decimal ds = 12 \<longrightarrow> name_to_evdev name = Some KEY_F12) \<and>
          (decimal ds < 1 \<or> 12 < decimal ds \<longrightarrow> name_to_evdev name = Some (- 1))"
      by (auto simp: fkey_code_def)
  qed
qed

text \<open>
  Claim C9, as amended. \<^verbatim>\<open>name_to_evdev\<close> ignores case. It maps \<^verbatim>\<open>f1\<close> to \<^verbatim>\<open>f10\<close> to the
  contiguous codes \<^verbatim>\<open>KEY_F1 + (n - 1)\<close>, and \<^verbatim>\<open>f11\<close> and \<^verbatim>\<open>f12\<close> by their own cases to
  \<^verbatim>\<open>KEY_F11\<close> and \<^verbatim>\<open>KEY_F12\<close>, which are not \<^verbatim>\<open>KEY_F1 + 10\<close> and \<^verbatim>\<open>KEY_F1 + 11\<close>. For a
  lower-cased name that is not a single letter, a single digit or a named key:
  \<^item> if it does not begin with \<^verbatim>\<open>f\<close>, the result is not-found;
  \<^item> if it is \<^verbatim>\<open>f\<close> followed by characters that are not all decimal digits, the result is
    not-found, provided the number denoted by the digits before the first other character
    is at most \<^verbatim>\<open>INT_MAX\<close>;
  \<^item> if it is \<^verbatim>\<open>f\<close> followed by decimal digits only, denoting a number \<open>v\<close> of at most
    \<^verbatim>\<open>INT_MAX\<close>, leading zeros included (\<^verbatim>\<open>f01\<close> is F1, \<^verbatim>\<open>f012\<close> is F12), the result is
    \<^verbatim>\<open>KEY_F1 + (v - 1)\<close> for \<open>v\<close> from 1 to 10, \<^verbatim>\<open>KEY_F11\<close> for 11, \<^verbatim>\<open>KEY_F12\<close> for 12, and
    not-found for every other \<open>v\<close>;
  \<^item> if the digits right after the \<^verbatim>\<open>f\<close> denote a number above \<^verbatim>\<open>INT_MAX\<close>, the accumulator
    of the source overflows, which C++ leaves undefined: no result is claimed, and the model
    returns \<open>None\<close>.
\<close>

theorem name_to_evdev_function_keys:
  "map name_to_evdev [''f1'', ''f2'', ''f3'', ''f4'', ''f5'', ''f6'', ''f7'', ''f8'', ''f9'', ''f10'']
     = map (\<lambda>n. Some (KEY_F1 + (n - 1))) [1, 2, 3, 4, 5, 6, 7, 8, 9, 10] \<and>
   map name_to_evdev [''F1'', ''F2'', ''F3'', ''F4'', ''F5'', ''F6'', ''F7'', ''F8'', ''F9'', ''F10'']
     = map (\<lambda>n. Some (KEY_F1 + (n - 1))) [1, 2, 3, 4, 5, 6, 7, 8, 9, 10] \<and>
   name_to_evdev ''f11'' = Some KEY_F11 \<and> name_to_evdev ''f12'' = Some KEY_F12 \<and>
   name_to_evdev ''F11'' = Some KEY_F11 \<and> name_to_evdev ''F12'' = Some KEY_F12 \<and>
   KEY_F11 \<noteq> KEY_F1 + 10 \<and> KEY_F12 \<noteq> KEY_F1 + 11 \<and>
   name_to_evdev ''f01'' = Some KEY_F1 \<and> name_to_evdev ''f012'' = Some KEY_F12 \<and>
   name_to_evdev (map tolower name) = name_to_evdev name \<and>
   (\<not> single_letter (map tolower name) \<and> \<not> single_digit (map tolower name) \<and>
    map tolower name \<notin> set named_key_names \<longrightarrow>
      ((\<forall>ds. map tolower name \<noteq> CHR ''f'' # ds) \<longrightarrow> name_to_evdev name = Some (- 1)) \<and>
      (\<forall>ds. map tolower name = CHR ''f'' # ds \<and> \<not> list_all isdigit ds \<and>
            decimal (takeWhile isdigit ds) \<le> INT_MAX \<longrightarrow> name_to_evdev name = Some (- 1)) \<and>
      (\<forall>ds. map tolower name = CHR ''f'' # ds \<and> list_all isdigit ds \<and> decimal ds \<le> INT_MAX \<longrightarrow>
          (1 \<le> decimal ds \<and> decimal ds \<le> 10 \<longrightarrow> name_to_evdev name = Some (KEY_F1 + (decimal ds - 1))) \<and>
          (decimal ds = 11 \<longrightarrow> name_to_evdev name = Some KEY_F11) \<and>
          (decimal ds = 12 \<longrightarrow> name_to_evdev name = Some KEY_F12) \<and>
          (decimal ds < 1 \<or> 12 < decimal ds \<longrightarrow> name_to_evdev name = Some (- 1))) \<and>
      (\<forall>ds. map tolower name = CHR ''f'' # ds \<and> INT_MAX < decimal (takeWhile isdigit ds) \<longrightarrow>
          name_to_evdev name = None))"
proof -
  have g: "((\<forall>ds. map tolower name \<noteq> CHR ''f'' # ds) \<longrightarrow> name_to_evdev name = Some (- 1)) \<and>
      (\<forall>ds. map tolower name = CHR ''f'' # ds \<and> \<not> list_all isdigit ds \<and>
            decimal (takeWhile isdigit ds) \<le> INT_MAX \<longrightarrow> name_to_evdev name = Some (- 1)) \<and>
      (\<forall>ds. map tolower name = CHR ''f'' # ds \<and> list_all isdigit ds \<and> decimal ds \<le> INT_MAX \<longrightarrow>
          (1 \<le> decimal ds \<and> decimal ds \<le> 10 \<longrightarrow> name_to_evdev name = Some (KEY_F1 + (decimal ds - 1))) \<and>
          (decimal ds = 11 \<longrightarrow> name_to_evdev name = Some KEY_F11) \<and>
          (decimal ds = 12 \<longrightarrow> name_to_evdev name = Some KEY_F12) \<and>
          (decimal ds < 1 \<or> 12 < decimal ds \<longrightarrow> name_to_evdev name = Some (- 1))) \<and>
      (\<forall>ds. map tolower name = CHR ''f'' # ds \<and> INT_MAX < decimal (takeWhile isdigit ds) \<longrightarrow>
          name_to_evdev name = None)"
    if "\<not> single_letter (map tolower name) \<and> \<not> single_digit (map tolower name) \<and>
        map tolower name \<notin> set named_key_names"
  proof -
    from that have u: "\<not> single_letter (map tolower name)" "\<not> single_digit (map tolower name)"
      "map tolower name \<notin> set named_key_names" by simp_all
    note f = name_to_evdev_by_form[OF u]
    from f(1) f(2) f(3) f(4) show ?thesis by blast
  qed
  with fkeys_lower fkeys_upper fkeys_special name_to_evdev_lower[of name] show ?thesis
    by blast
qed

lemma form_facts:
  "\<not> single_letter (map tolower ''f01'')" "\<not> single_digit (map tolower ''f01'')"
  "map tolower ''f01'' \<notin> set named_key_names" "map tolower ''f01'' = CHR ''f'' # ''01''"
  "list_all isdigit ''01''" "decimal ''01'' = 1" "decimal ''01'' \<le> INT_MAX"
  "\<not> single_letter (map tolower ''F13'')" "\<not> single_digit (map tolower ''F13'')"
  "map tolower ''F13'' \<notin> set named_key_names" "map tolower ''F13'' = CHR ''f'' # ''13''"
  "list_all isdigit ''13''" "decimal ''13'' = 13" "decimal ''13'' \<le> INT_MAX"
  "\<not> single_letter (map tolower ''f1x'')" "\<not> single_digit (map tolower ''f1x'')"
  "map tolower ''f1x'' \<notin> set named_key_names" "map tolower ''f1x'' = CHR ''f'' # ''1x''"
  "\<not> list_all isdigit ''1x''" "decimal (takeWhile isdigit ''1x'') \<le> INT_MAX"
  "\<not> single_letter (map tolower ''Hyper'')" "\<not> single_digit (map tolower ''Hyper'')"
  "map tolower ''Hyper'' \<notin> set named_key_names" "map tolower ''Hyper'' = ''hyper''"
  "\<not> single_letter (map tolower ''f99999999999x'')" "\<not> single_digit (map tolower ''f99999999999x'')"
  "map tolower ''f99999999999x'' \<notin> set named_key_names"
  "map tolower ''f99999999999x'' = CHR ''f'' # ''99999999999x''"
  "INT_MAX < decimal (takeWhile isdigit ''99999999999x'')"
  by code_simp+

theorem name_to_evdev_function_keys_witness:
  "map tolower ''f01'' = CHR ''f'' # ''01'' \<and> list_all isdigit ''01'' \<and> decimal ''01'' = 1 \<and>
   name_to_evdev ''f01'' = Some 59 \<and>
   map tolower ''F13'' = CHR ''f'' # ''13'' \<and> list_all isdigit ''13'' \<and> decimal ''13'' = 13 \<and>
   name_to_evdev ''F13'' = Some (- 1) \<and>
   map tolower ''f1x'' = CHR ''f'' # ''1x'' \<and> \<not> list_all isdigit ''1x'' \<and>
   decimal (takeWhile isdigit ''1x'') \<le> INT_MAX \<and>
   name_to_evdev ''f1x'' = Some (- 1) \<and>
   map tolower ''Hyper'' = ''hyper'' \<and>
   name_to_evdev ''Hyper'' = Some (- 1) \<and>
   map tolower ''f99999999999x'' = CHR ''f'' # ''99999999999x'' \<and>
   INT_MAX < decimal (takeWhile isdigit ''99999999999x'') \<and>
   name_to_evdev ''f99999999999x'' = None"
proof -
  note f = form_facts
  have ovf: "name_to_evdev name = None"
    if "\<not> single_letter (map tolower name)" "\<not> single_digit (map tolower name)"
      "map tolower name \<notin> set named_key_names" "map tolower name = CHR ''f'' # ds"
      "INT_MAX < decimal (takeWhile isdigit ds)"
    for name ds
    using name_to_evdev_function_keys[of name] that by meson
  have e: "name_to_evdev ''f99999999999x'' = None"
    by (rule ovf[OF f(25-29)])
  have num: "name_to_evdev name = Some (KEY_F1 + (decimal ds - 1))"
    if "\<not> single_letter (map tolower name)" "\<not> single_digit (map tolower name)"
      "map tolower name \<notin> set named_key_names" "map tolower name = CHR ''f'' # ds"
      "list_all isdigit ds" "decimal ds \<le> INT_MAX" "1 \<le> decimal ds" "decimal ds \<le> 10"
    for name ds
    using name_to_evdev_function_keys[of name] that by meson
  have out: "name_to_evdev name = Some (- 1)"
    if "\<not> single_letter (map tolower name)" "\<not> single_digit (map tolower name)"
      "map tolower name \<notin> set named_key_names" "map tolower name = CHR ''f'' # ds"
      "list_all isdigit ds" "decimal ds \<le> INT_MAX" "12 < decimal ds"
    for name ds
    using name_to_evdev_function_keys[of name] that by meson
  have nod: "name_to_evdev name = Some (- 1)"
    if "\<not> single_letter (map tolower name)" "\<not> single_digit (map tolower name)"
      "map tolower name \<notin> set named_key_names" "map tolower name = CHR ''f'' # ds"
      "\<not> list_all isdigit ds" "decimal (takeWhile isdigit ds) \<le> INT_MAX"
    for name ds
    using name_to_evdev_function_keys[of name] that by meson
  have nof: "name_to_evdev name = Some (- 1)"
    if "\<not> single_letter (map tolower name)" "\<not> single_digit (map tolower name)"
      "map tolower name \<notin> set named_key_names" "\<forall>ds. map tolower name \<noteq> CHR ''f'' # ds"
    for name
    using name_to_evdev_function_keys[of name] that by meson
  have "name_to_evdev ''f01'' = Some (KEY_F1 + (decimal ''01'' - 1))"
    by (rule num[OF f(1-5) f(7)]) (simp_all add: f(6))
  then have a: "name_to_evdev ''f01'' = Some 59"
    unfolding f(6) by (simp add: KEY_F1_def)
  have b: "name_to_evdev ''F13'' = Some (- 1)"
    by (rule out[OF f(8-12) f(14)]) (simp add: f(13))
  have c: "name_to_evdev ''f1x'' = Some (- 1)"
    by (rule nod[OF f(15-20)])
  have nf: "\<forall>ds. map tolower ''Hyper'' \<noteq> CHR ''f'' # ds"
    unfolding f(24) by simp
  have d: "name_to_evdev ''Hyper'' = Some (- 1)"
    by (rule nof[OF f(21-23) nf])
  from a b c d e f(4,5,6,11,12,13,18,19,20,24,28,29) show ?thesis
    by (intro conjI)
qed

text \<open>The claim as the specification words it fails: \<^verbatim>\<open>f01\<close> is outside the set of
  recognized names it lists, yet the resolver finds a key for it.\<close>

theorem name_to_evdev_leading_zero_counterexample:
  "\<not> spec_recognized (map tolower ''f01'') \<and> name_to_evdev ''f01'' \<noteq> Some (- 1)"
  by code_simp

section \<open>Parsing the hotkey string\<close>



























section \<open>The recording state machine: manual stop and debounce\<close>

lemma poll_simps:
  "poll_pressed h = (m_event_press h, h\<lparr>m_event_press := False\<rparr>)"
  "poll_released h = (m_event_release h, h\<lparr>m_event_release := False\<rparr>)"
  by (simp_all add: poll_pressed_def poll_released_def)

lemma recording_step_stop:
  assumes "stop_pending params t"
  shows "recording_step params sr e t =
     (let t1 = (if push_to_talk params
                then t\<lparr>hotkey := (hotkey t)\<lparr>m_event_release := False\<rparr>\<rparr>
                else t\<lparr>hotkey := (hotkey t)\<lparr>m_event_press := False\<rparr>,
                       g_sigusr1 := (m_event_press (hotkey t) \<and> g_sigusr1 t)\<rparr>)
      in if since_start e t < 300 then t1
         else t1\<lparr>speech_detected := True, state := TRANSCRIBING\<rparr>)"
  using assms
  by (auto simp: recording_step_def stop_pending_def since_start_def pressed_or_signal_def
        poll_simps Let_def)

lemma recording_step_no_stop:
  assumes "\<not> stop_pending params t"
  shows "recording_step params sr e t =
     (let t1 = (if push_to_talk params
                then t\<lparr>hotkey := (hotkey t)\<lparr>m_event_release := False\<rparr>\<rparr>
                else t\<lparr>hotkey := (hotkey t)\<lparr>m_event_press := False\<rparr>, g_sigusr1 := False\<rparr>);
          now' = now e 0
      in if since_start e t \<ge> max_record_ms params then t1\<lparr>state := TRANSCRIBING\<rparr>
         else
           (let vad_buf = audio_get e 2000;
                t2 = t1\<lparr>calls := calls t1 @ [Audio_get 2000]\<rparr>
            in if length vad_buf \<ge> vad_min_samples sr then
                 (let t3 = t2\<lparr>calls := calls t2 @ [Vad_simple vad_buf]\<rparr>;
                      t4 = (if \<not> vad_simple e vad_buf
                            then t3\<lparr>speech_detected := True, silence_start := now'\<rparr>
                            else t3)
                  in if speech_detected t4 \<and> duration_ms (now' - silence_start t4) \<ge> silence_ms params
                     then t4\<lparr>state := TRANSCRIBING\<rparr> else t4)
               else t2))"
  using assms
  by (auto simp: recording_step_def stop_pending_def since_start_def pressed_or_signal_def
        poll_simps Let_def)

lemma duration_ms_of_ms: "0 \<le> k \<Longrightarrow> duration_ms (k * 1000000) = k"
  by (simp add: duration_ms_def sgn_if abs_mult)

lemma main_step_recording: "state t = RECORDING \<Longrightarrow> main_step params sr e t = recording_step params sr e t"
  by (simp add: main_step_def)

lemma main_step_transcribing: "state t = TRANSCRIBING \<Longrightarrow> main_step params sr e t = transcribing_step params e t"
  by (simp add: main_step_def)

lemma stop_dropped:
  assumes "state t = RECORDING" "stop_pending params t" "since_start e t < 300"
  shows "state (main_step params sr e t) = RECORDING"
    and "speech_detected (main_step params sr e t) = speech_detected t"
    and "record_start (main_step params sr e t) = record_start t"
    and "silence_start (main_step params sr e t) = silence_start t"
    and "pcmf32 (main_step params sr e t) = pcmf32 t"
    and "calls (main_step params sr e t) = calls t"
    and "push_to_talk params \<longrightarrow>
           \<not> m_event_release (hotkey (main_step params sr e t)) \<and>
           m_event_press (hotkey (main_step params sr e t)) = m_event_press (hotkey t) \<and>
           g_sigusr1 (main_step params sr e t) = g_sigusr1 t"
    and "\<not> push_to_talk params \<longrightarrow>
           \<not> m_event_press (hotkey (main_step params sr e t)) \<and>
           m_event_release (hotkey (main_step params sr e t)) = m_event_release (hotkey t) \<and>
           g_sigusr1 (main_step params sr e t) = (m_event_press (hotkey t) \<and> g_sigusr1 t)"
  using assms
  by (simp_all add: main_step_recording recording_step_stop Let_def)

lemma stop_honoured:
  assumes "state t = RECORDING" "stop_pending params t" "300 \<le> since_start e t"
  shows "state (main_step params sr e t) = TRANSCRIBING"
    and "speech_detected (main_step params sr e t)"
    and "record_start (main_step params sr e t) = record_start t"
    and "calls (main_step params sr e t) = calls t"
  using assms
  by (simp_all add: main_step_recording recording_step_stop Let_def)

lemma since_start_100: "now e 0 = record_start t + 100 * 1000000 \<Longrightarrow> since_start e t = 100"
  by (simp add: since_start_def duration_ms_def)

lemma since_start_301: "now e 0 = record_start t + 301 * 1000000 \<Longrightarrow> since_start e t = 301"
  by (simp add: since_start_def duration_ms_def)

text \<open>
  Claim C2. In the Recording state, when a manual stop is pending (the release flag in
  push-to-talk mode; the press flag or the signal flag in toggle mode): if the time since
  \<^verbatim>\<open>record_start\<close> is below 300 ms, the iteration leaves the state, \<^verbatim>\<open>speech_detected\<close>,
  both time stamps, the samples and the collaborators alone, and the flag that was read is
  cleared, so the edge is dropped and not kept for later (in toggle mode the signal flag
  survives only when it was not read, because the press flag was set); if the time is 300 ms
  or more, \<^verbatim>\<open>speech_detected\<close> is set and the state is Transcribing. A stop at
  \<^verbatim>\<open>record_start\<close> + 100 ms is ignored, one at \<^verbatim>\<open>record_start\<close> + 301 ms is honoured.
\<close>

theorem manual_stop_debounce:
  "state t = RECORDING \<and> stop_pending params t \<longrightarrow>
     (since_start e t < 300 \<longrightarrow>
        state (main_step params sr e t) = RECORDING \<and>
        speech_detected (main_step params sr e t) = speech_detected t \<and>
        record_start (main_step params sr e t) = record_start t \<and>
        silence_start (main_step params sr e t) = silence_start t \<and>
        pcmf32 (main_step params sr e t) = pcmf32 t \<and>
        calls (main_step params sr e t) = calls t \<and>
        (push_to_talk params \<longrightarrow>
           \<not> m_event_release (hotkey (main_step params sr e t)) \<and>
           m_event_press (hotkey (main_step params sr e t)) = m_event_press (hotkey t) \<and>
           g_sigusr1 (main_step params sr e t) = g_sigusr1 t) \<and>
        (\<not> push_to_talk params \<longrightarrow>
           \<not> m_event_press (hotkey (main_step params sr e t)) \<and>
           m_event_release (hotkey (main_step params sr e t)) = m_event_release (hotkey t) \<and>
           g_sigusr1 (main_step params sr e t) = (m_event_press (hotkey t) \<and> g_sigusr1 t))) \<and>
     (300 \<le> since_start e t \<longrightarrow>
        state (main_step params sr e t) = TRANSCRIBING \<and>
        speech_detected (main_step params sr e t) \<and>
        record_start (main_step params sr e t) = record_start t \<and>
        calls (main_step params sr e t) = calls t) \<and>
     (now e 0 = record_start t + 100 * 1000000 \<longrightarrow>
        state (main_step params sr e t) = RECORDING \<and>
        speech_detected (main_step params sr e t) = speech_detected t) \<and>
     (now e 0 = record_start t + 301 * 1000000 \<longrightarrow>
        state (main_step params sr e t) = TRANSCRIBING \<and>
        speech_detected (main_step params sr e t))"
proof
  assume a: "state t = RECORDING \<and> stop_pending params t"
  then have r: "state t = RECORDING" and p: "stop_pending params t" by simp_all
  have d: "state (main_step params sr e t) = RECORDING \<and>
        speech_detected (main_step params sr e t) = speech_detected t \<and>
        record_start (main_step params sr e t) = record_start t \<and>
        silence_start (main_step params sr e t) = silence_start t \<and>
        pcmf32 (main_step params sr e t) = pcmf32 t \<and>
        calls (main_step params sr e t) = calls t \<and>
        (push_to_talk params \<longrightarrow>
           \<not> m_event_release (hotkey (main_step params sr e t)) \<and>
           m_event_press (hotkey (main_step params sr e t)) = m_event_press (hotkey t) \<and>
           g_sigusr1 (main_step params sr e t) = g_sigusr1 t) \<and>
        (\<not> push_to_talk params \<longrightarrow>
           \<not> m_event_press (hotkey (main_step params sr e t)) \<and>
           m_event_release (hotkey (main_step params sr e t)) = m_event_release (hotkey t) \<and>
           g_sigusr1 (main_step params sr e t) = (m_event_press (hotkey t) \<and> g_sigusr1 t))"
    if "since_start e t < 300"
    using stop_dropped[OF r p that, of sr] by blast
  have h: "state (main_step params sr e t) = TRANSCRIBING \<and>
        speech_detected (main_step params sr e t) \<and>
        record_start (main_step params sr e t) = record_start t \<and>
        calls (main_step params sr e t) = calls t"
    if "300 \<le> since_start e t"
    using stop_honoured[OF r p that, of sr] by blast
  have e100: "state (main_step params sr e t) = RECORDING \<and>
        speech_detected (main_step params sr e t) = speech_detected t"
    if "now e 0 = record_start t + 100 * 1000000"
    using d since_start_100[OF that] by simp
  have e301: "state (main_step params sr e t) = TRANSCRIBING \<and>
        speech_detected (main_step params sr e t)"
    if "now e 0 = record_start t + 301 * 1000000"
    using h since_start_301[OF that] by simp
  from d h e100 e301 show "(since_start e t < 300 \<longrightarrow>
        state (main_step params sr e t) = RECORDING \<and>
        speech_detected (main_step params sr e t) = speech_detected t \<and>
        record_start (main_step params sr e t) = record_start t \<and>
        silence_start (main_step params sr e t) = silence_start t \<and>
        pcmf32 (main_step params sr e t) = pcmf32 t \<and>
        calls (main_step params sr e t) = calls t \<and>
        (push_to_talk params \<longrightarrow>
           \<not> m_event_release (hotkey (main_step params sr e t)) \<and>
           m_event_press (hotkey (main_step params sr e t)) = m_event_press (hotkey t) \<and>
           g_sigusr1 (main_step params sr e t) = g_sigusr1 t) \<and>
        (\<not> push_to_talk params \<longrightarrow>
           \<not> m_event_press (hotkey (main_step params sr e t)) \<and>
           m_event_release (hotkey (main_step params sr e t)) = m_event_release (hotkey t) \<and>
           g_sigusr1 (main_step params sr e t) = (m_event_press (hotkey t) \<and> g_sigusr1 t))) \<and>
     (300 \<le> since_start e t \<longrightarrow>
        state (main_step params sr e t) = TRANSCRIBING \<and>
        speech_detected (main_step params sr e t) \<and>
        record_start (main_step params sr e t) = record_start t \<and>
        calls (main_step params sr e t) = calls t) \<and>
     (now e 0 = record_start t + 100 * 1000000 \<longrightarrow>
        state (main_step params sr e t) = RECORDING \<and>
        speech_detected (main_step params sr e t) = speech_detected t) \<and>
     (now e 0 = record_start t + 301 * 1000000 \<longrightarrow>
        state (main_step params sr e t) = TRANSCRIBING \<and>
        speech_detected (main_step params sr e t))"
    by blast
qed

lemma recording_typer_facts:
  "state recording_typer = RECORDING" "stop_pending default_params recording_typer"
  "\<not> push_to_talk default_params" "\<not> speech_detected recording_typer"
  "now (surroundings 1100000000 n) 0 = record_start recording_typer + 100 * 1000000"
  "now (surroundings 1301000000 n) 0 = record_start recording_typer + 301 * 1000000"
  "since_start (surroundings 1299999999 n) recording_typer = 299"
  "since_start (surroundings 1300000000 n) recording_typer = 300"
  by (simp_all add: recording_typer_def default_params_def stop_pending_def surroundings_def
        idle_listener_def since_start_def duration_ms_def)

theorem manual_stop_debounce_witness:
  "state recording_typer = RECORDING \<and> stop_pending default_params recording_typer \<and>
   now (surroundings 1100000000 0) 0 = record_start recording_typer + 100 * 1000000 \<and>
   state (main_step default_params 16000 (surroundings 1100000000 0) recording_typer) = RECORDING \<and>
   \<not> speech_detected (main_step default_params 16000 (surroundings 1100000000 0) recording_typer) \<and>
   now (surroundings 1301000000 0) 0 = record_start recording_typer + 301 * 1000000 \<and>
   state (main_step default_params 16000 (surroundings 1301000000 0) recording_typer) = TRANSCRIBING \<and>
   speech_detected (main_step default_params 16000 (surroundings 1301000000 0) recording_typer) \<and>
   since_start (surroundings 1299999999 0) recording_typer = 299 \<and>
   state (main_step default_params 16000 (surroundings 1299999999 0) recording_typer) = RECORDING \<and>
   \<not> m_event_press (hotkey (main_step default_params 16000 (surroundings 1299999999 0) recording_typer)) \<and>
   since_start (surroundings 1300000000 0) recording_typer = 300 \<and>
   state (main_step default_params 16000 (surroundings 1300000000 0) recording_typer) = TRANSCRIBING"
proof -
  note f = recording_typer_facts
  have a: "state (main_step default_params 16000 (surroundings 1100000000 0) recording_typer) = RECORDING"
      "speech_detected (main_step default_params 16000 (surroundings 1100000000 0) recording_typer)
        = speech_detected recording_typer"
    using manual_stop_debounce[of recording_typer default_params "surroundings 1100000000 0" 16000]
      f(1,2) f(5)[of 0] by blast+
  have b: "state (main_step default_params 16000 (surroundings 1301000000 0) recording_typer) = TRANSCRIBING"
      "speech_detected (main_step default_params 16000 (surroundings 1301000000 0) recording_typer)"
    using manual_stop_debounce[of recording_typer default_params "surroundings 1301000000 0" 16000]
      f(1,2) f(6)[of 0] by blast+
  have lt: "since_start (surroundings 1299999999 0) recording_typer < 300"
    unfolding f(7) by simp
  have c: "state (main_step default_params 16000 (surroundings 1299999999 0) recording_typer) = RECORDING"
      "\<not> m_event_press (hotkey (main_step default_params 16000 (surroundings 1299999999 0) recording_typer))"
    using manual_stop_debounce[of recording_typer default_params "surroundings 1299999999 0" 16000]
      f(1,2,3) lt by blast+
  have ge: "300 \<le> since_start (surroundings 1300000000 0) recording_typer"
    unfolding f(8) by simp
  have d: "state (main_step default_params 16000 (surroundings 1300000000 0) recording_typer) = TRANSCRIBING"
    using manual_stop_debounce[of recording_typer default_params "surroundings 1300000000 0" 16000]
      f(1,2) ge by blast
  from a b c d f(1,2,4) f(5)[of 0] f(6)[of 0] f(7)[of 0] f(8)[of 0] show ?thesis
    by simp
qed

section \<open>The recording state machine: the minimum of samples for the voice-activity check\<close>

lemma since_start_vad [simp]: "since_start (e\<lparr>vad_simple := v\<rparr>) t = since_start e t"
  by (simp add: since_start_def)

lemma short_buffer_stop:
  assumes "state t = RECORDING" "stop_pending params t"
  shows "silence_start (main_step params sr e t) = silence_start t"
    and "speech_detected (main_step params sr e t) = (speech_detected t \<or> 300 \<le> since_start e t)"
    and "calls (main_step params sr e t) = calls t"
    and "main_step params sr (e\<lparr>vad_simple := v\<rparr>) t = main_step params sr e t"
  using assms
  by (simp_all add: main_step_recording recording_step_stop Let_def)

lemma short_buffer_no_stop:
  assumes "state t = RECORDING" "\<not> stop_pending params t"
    and "length (audio_get e 2000) < vad_min_samples sr"
  shows "silence_start (main_step params sr e t) = silence_start t"
    and "speech_detected (main_step params sr e t) = speech_detected t"
    and "calls (main_step params sr e t) = calls t \<or> calls (main_step params sr e t) = calls t @ [Audio_get 2000]"
    and "main_step params sr (e\<lparr>vad_simple := v\<rparr>) t = main_step params sr e t"
    and "since_start e t < max_record_ms params \<longrightarrow> state (main_step params sr e t) = RECORDING"
  using assms
  by (simp_all add: main_step_recording recording_step_no_stop Let_def)

lemma vad_call_needs_samples:
  assumes "state t = RECORDING"
    and "Vad_simple b \<in> set (calls (main_step params sr e t))" "Vad_simple b \<notin> set (calls t)"
  shows "vad_min_samples sr \<le> length b"
proof (cases "stop_pending params t")
  case True
  with assms show ?thesis
    by (simp add: main_step_recording recording_step_stop Let_def split: if_splits)
next
  case False
  with assms show ?thesis
    by (auto simp: main_step_recording recording_step_no_stop Let_def split: if_splits)
qed

text \<open>
  Claim C6. The minimum is \<^verbatim>\<open>sample_rate * 2 + 1\<close>. In a Recording iteration in which
  \<^verbatim>\<open>audio.get(2000, ...)\<close> returns fewer samples than that, whatever they are,
  \<^verbatim>\<open>silence_start\<close> is not changed, \<^verbatim>\<open>speech_detected\<close> can only become true through an
  honoured manual stop, \<^verbatim>\<open>vad_simple\<close> is not called (at most the audio buffer is read, and
  the outcome does not depend on what \<^verbatim>\<open>vad_simple\<close> would answer), and without a stop or
  the maximum time the machine stays in Recording. Conversely \<^verbatim>\<open>vad_simple\<close> is only ever
  called on a buffer of at least the minimum length.
\<close>

theorem vad_minimum_samples:
  "vad_min_samples sr = sr * 2 + 1 \<and>
   (state t = RECORDING \<and> length (audio_get e 2000) < vad_min_samples sr \<longrightarrow>
      silence_start (main_step params sr e t) = silence_start t \<and>
      speech_detected (main_step params sr e t)
        = (speech_detected t \<or> (stop_pending params t \<and> 300 \<le> since_start e t)) \<and>
      (calls (main_step params sr e t) = calls t \<or>
       calls (main_step params sr e t) = calls t @ [Audio_get 2000]) \<and>
      main_step params sr (e\<lparr>vad_simple := v\<rparr>) t = main_step params sr e t \<and>
      (\<not> stop_pending params t \<and> since_start e t < max_record_ms params \<longrightarrow>
         state (main_step params sr e t) = RECORDING)) \<and>
   (state t = RECORDING \<and> Vad_simple b \<in> set (calls (main_step params sr e t)) \<and>
    Vad_simple b \<notin> set (calls t) \<longrightarrow> vad_min_samples sr \<le> length b)"
proof (intro conjI impI)
  show "vad_min_samples sr = sr * 2 + 1"
    by (simp add: vad_min_samples_def)
next
  assume "state t = RECORDING \<and> Vad_simple b \<in> set (calls (main_step params sr e t)) \<and>
    Vad_simple b \<notin> set (calls t)"
  then show "vad_min_samples sr \<le> length b"
    using vad_call_needs_samples[of t b params sr e] by blast
next
  assume a: "state t = RECORDING \<and> length (audio_get e 2000) < vad_min_samples sr"
  then have r: "state t = RECORDING" and l: "length (audio_get e 2000) < vad_min_samples sr"
    by simp_all
  show "silence_start (main_step params sr e t) = silence_start t"
    using short_buffer_stop(1)[OF r, of params sr e] short_buffer_no_stop(1)[OF r _ l, of params]
    by blast
  show "speech_detected (main_step params sr e t)
        = (speech_detected t \<or> (stop_pending params t \<and> 300 \<le> since_start e t))"
    using short_buffer_stop(2)[OF r, of params sr e] short_buffer_no_stop(2)[OF r _ l, of params]
    by blast
  show "calls (main_step params sr e t) = calls t \<or>
       calls (main_step params sr e t) = calls t @ [Audio_get 2000]"
    using short_buffer_stop(3)[OF r, of params sr e] short_buffer_no_stop(3)[OF r _ l, of params]
    by blast
  show "main_step params sr (e\<lparr>vad_simple := v\<rparr>) t = main_step params sr e t"
    using short_buffer_stop(4)[OF r, of params sr v e] short_buffer_no_stop(4)[OF r _ l, of params v]
    by blast
  show "state (main_step params sr e t) = RECORDING"
    if "\<not> stop_pending params t \<and> since_start e t < max_record_ms params"
    using short_buffer_no_stop(5)[OF r _ l, of params] that by blast
qed

lemma quiet_typer_facts:
  "state quiet_typer = RECORDING" "\<not> stop_pending default_params quiet_typer"
  "length (audio_get (surroundings 2000000000 32000) 2000) < vad_min_samples 16000"
  "\<not> speech_detected quiet_typer" "silence_start quiet_typer = 1000000000"
  "since_start (surroundings 2000000000 32000) quiet_typer < max_record_ms default_params"
  "\<not> vad_simple (surroundings 2000000000 32000) (audio_get (surroundings 2000000000 32000) 2000)"
  by (simp_all add: quiet_typer_def recording_typer_def default_params_def stop_pending_def
        surroundings_def idle_listener_def since_start_def duration_ms_def vad_min_samples_def)

lemma enough_samples:
  "speech_detected (main_step default_params 16000 (surroundings 2000000000 32001) quiet_typer)"
  "silence_start (main_step default_params 16000 (surroundings 2000000000 32001) quiet_typer) = 2000000000"
  by (simp_all add: main_step_def recording_step_def quiet_typer_def recording_typer_def
        default_params_def surroundings_def idle_listener_def duration_ms_def
        vad_min_samples_def pressed_or_signal_def poll_pressed_def)

theorem vad_minimum_samples_witness:
  "state quiet_typer = RECORDING \<and>
   length (audio_get (surroundings 2000000000 32000) 2000) < vad_min_samples 16000 \<and>
   \<not> vad_simple (surroundings 2000000000 32000) (audio_get (surroundings 2000000000 32000) 2000) \<and>
   silence_start (main_step default_params 16000 (surroundings 2000000000 32000) quiet_typer) = 1000000000 \<and>
   \<not> speech_detected (main_step default_params 16000 (surroundings 2000000000 32000) quiet_typer) \<and>
   state (main_step default_params 16000 (surroundings 2000000000 32000) quiet_typer) = RECORDING \<and>
   speech_detected (main_step default_params 16000 (surroundings 2000000000 32001) quiet_typer) \<and>
   silence_start (main_step default_params 16000 (surroundings 2000000000 32001) quiet_typer) = 2000000000"
proof -
  note f = quiet_typer_facts
  from vad_minimum_samples[of 16000 quiet_typer "surroundings 2000000000 32000" default_params] f(1,3)
  have "silence_start (main_step default_params 16000 (surroundings 2000000000 32000) quiet_typer)
          = silence_start quiet_typer"
    and "speech_detected (main_step default_params 16000 (surroundings 2000000000 32000) quiet_typer)
        = (speech_detected quiet_typer \<or> (stop_pending default_params quiet_typer \<and>
             300 \<le> since_start (surroundings 2000000000 32000) quiet_typer))"
    and "\<not> stop_pending default_params quiet_typer \<and>
         since_start (surroundings 2000000000 32000) quiet_typer < max_record_ms default_params \<longrightarrow>
         state (main_step default_params 16000 (surroundings 2000000000 32000) quiet_typer) = RECORDING"
    by blast+
  with f enough_samples show ?thesis
    by simp
qed

section \<open>The recording state machine: transcribing\<close>

lemma rev_dropWhile_split:
  "d = rev (dropWhile P (rev d)) @ rev (takeWhile P (rev d))"
proof -
  have "rev (rev d) = rev (takeWhile P (rev d) @ dropWhile P (rev d))"
    by (simp only: takeWhile_dropWhile_id)
  also have "\<dots> = rev (dropWhile P (rev d)) @ rev (takeWhile P (rev d))"
    by (rule rev_append)
  finally show ?thesis by (simp only: rev_rev_ident)
qed

lemma trim_decompose:
  "\<exists>pre post. s = pre @ trim s @ post \<and> (\<forall>c \<in> set pre. isspace c) \<and> (\<forall>c \<in> set post. isspace c)"
proof -
  let ?d = "dropWhile isspace s"
  have s: "s = takeWhile isspace s @ ?d" by simp
  have d: "?d = trim s @ rev (takeWhile isspace (rev ?d))"
    unfolding trim_def by (rule rev_dropWhile_split)
  have "s = takeWhile isspace s @ trim s @ rev (takeWhile isspace (rev ?d))"
    using s d by metis
  moreover have "\<forall>c \<in> set (takeWhile isspace s). isspace c"
    by (auto dest: set_takeWhileD)
  moreover have "\<forall>c \<in> set (rev (takeWhile isspace (rev ?d))). isspace c"
    by (auto dest: set_takeWhileD)
  ultimately show ?thesis by blast
qed

lemma trim_ends:
  assumes "trim s \<noteq> []"
  shows "\<not> isspace (hd (trim s))" and "\<not> isspace (last (trim s))"
proof -
  let ?d = "dropWhile isspace s"
  let ?r = "dropWhile isspace (rev ?d)"
  have t: "trim s = rev ?r" by (simp add: trim_def)
  with assms have r: "?r \<noteq> []" by simp
  then have "\<not> isspace (hd ?r)" by (rule hd_dropWhile)
  then show "\<not> isspace (last (trim s))"
    unfolding t using r by (simp add: last_rev)
  have d: "?d \<noteq> []"
  proof
    assume e: "?d = []"
    have "?r = dropWhile isspace (rev [])" by (simp only: e)
    then have "?r = []" by simp
    with r show False ..
  qed
  then have nd: "\<not> isspace (hd ?d)" by (rule hd_dropWhile)
  have "?d = rev ?r @ rev (takeWhile isspace (rev ?d))"
    by (rule rev_dropWhile_split)
  then have "hd ?d = hd (rev ?r)"
    using r by (metis hd_append2 rev_is_Nil_conv)
  with nd show "\<not> isspace (hd (trim s))"
    unfolding t by simp
qed

lemma transcribing_facts:
  fixes t :: "'u typer" and params e
  assumes "state t = TRANSCRIBING"
  defines "get_ms \<equiv> min (int_cast (since_start e t)) (max_record_ms params)"
  defines "buf \<equiv> audio_get e get_ms"
  shows "state (main_step params sr e t) = IDLE"
    and "pcmf32 (main_step params sr e t) = buf"
    and "buf = [] \<or> \<not> speech_detected t \<longrightarrow>
           calls (main_step params sr e t) = calls t @ [Audio_get get_ms]"
    and "buf \<noteq> [] \<and> speech_detected t \<longrightarrow>
           calls (main_step params sr e t) = calls t @ [Audio_get get_ms, Transcribe buf] @
             (if trim (transcribe e buf) = [] then [] else [Output_type (trim (transcribe e buf))])"
  using assms(1) unfolding get_ms_def buf_def
  by (simp_all add: main_step_transcribing transcribing_step_def since_start_def Let_def)

text \<open>
  Claim C3. An iteration in the Transcribing state always ends in Idle. It fetches the
  recorded span; if the span is empty or \<^verbatim>\<open>speech_detected\<close> is false, that fetch is the
  only call made: the engine is not invoked and nothing is handed to \<^verbatim>\<open>output.type\<close>.
  Otherwise the engine is invoked once on the span, its text is trimmed, and the trimmed
  text is handed to \<^verbatim>\<open>output.type\<close> exactly when it is not empty. Trimming removes only
  whitespace, from both ends: the text is whitespace, then the trimmed text, then
  whitespace, and a trimmed text that is not empty neither starts nor ends with whitespace.
\<close>

theorem transcribing_guard:
  "(state t = TRANSCRIBING \<longrightarrow>
     state (main_step params sr e t) = IDLE \<and>
     pcmf32 (main_step params sr e t)
       = audio_get e (min (int_cast (since_start e t)) (max_record_ms params)) \<and>
     (audio_get e (min (int_cast (since_start e t)) (max_record_ms params)) = [] \<or>
      \<not> speech_detected t \<longrightarrow>
        calls (main_step params sr e t)
          = calls t @ [Audio_get (min (int_cast (since_start e t)) (max_record_ms params))]) \<and>
     (audio_get e (min (int_cast (since_start e t)) (max_record_ms params)) \<noteq> [] \<and>
      speech_detected t \<longrightarrow>
        calls (main_step params sr e t)
          = calls t @
            [Audio_get (min (int_cast (since_start e t)) (max_record_ms params)),
             Transcribe (audio_get e (min (int_cast (since_start e t)) (max_record_ms params)))] @
            (if trim (transcribe e (audio_get e (min (int_cast (since_start e t)) (max_record_ms params)))) = []
             then []
             else [Output_type (trim (transcribe e
                     (audio_get e (min (int_cast (since_start e t)) (max_record_ms params)))))]))) \<and>
   (\<exists>pre post. s = pre @ trim s @ post \<and> (\<forall>c \<in> set pre. isspace c) \<and> (\<forall>c \<in> set post. isspace c)) \<and>
   (trim s \<noteq> [] \<longrightarrow> \<not> isspace (hd (trim s)) \<and> \<not> isspace (last (trim s)))"
  using transcribing_facts[where t=t and params=params and sr=sr and e=e] trim_decompose[of s] trim_ends[of s]
  by blast

lemma transcribing_typer_facts:
  "state (transcribing_typer sp) = TRANSCRIBING" "speech_detected (transcribing_typer sp) = sp"
  "calls (transcribing_typer sp) = [Audio_clear, Audio_get 2000]"
  "min (int_cast (since_start (surroundings 3000000000 n) (transcribing_typer sp))) (max_record_ms default_params) = 2000"
  "audio_get (surroundings 3000000000 n) 2000 = replicate n 0"
  "trim (transcribe (surroundings 3000000000 n) b) = ''hello world''"
  by (simp_all add: transcribing_typer_def quiet_typer_def recording_typer_def default_params_def
        surroundings_def since_start_def duration_ms_def int_cast_def trim_def isspace_def)

theorem transcribing_guard_witness:
  "state (transcribing_typer False) = TRANSCRIBING \<and>
   \<not> speech_detected (transcribing_typer False) \<and>
   state (main_step default_params 16000 (surroundings 3000000000 3) (transcribing_typer False)) = IDLE \<and>
   calls (main_step default_params 16000 (surroundings 3000000000 3) (transcribing_typer False))
     = [Audio_clear, Audio_get 2000, Audio_get 2000] \<and>
   state (main_step default_params 16000 (surroundings 3000000000 0) (transcribing_typer True)) = IDLE \<and>
   calls (main_step default_params 16000 (surroundings 3000000000 0) (transcribing_typer True))
     = [Audio_clear, Audio_get 2000, Audio_get 2000] \<and>
   audio_get (surroundings 3000000000 3) 2000 \<noteq> [] \<and> speech_detected (transcribing_typer True) \<and>
   state (main_step default_params 16000 (surroundings 3000000000 3) (transcribing_typer True)) = IDLE \<and>
   calls (main_step default_params 16000 (surroundings 3000000000 3) (transcribing_typer True))
     = [Audio_clear, Audio_get 2000, Audio_get 2000, Transcribe [0, 0, 0], Output_type ''hello world''] \<and>
   trim '' hello world '' = ''hello world''"
proof -
  note f = transcribing_typer_facts
  have b3: "audio_get (surroundings 3000000000 3) 2000 = [0, 0, 0]"
    by (simp add: f(5) numeral_3_eq_3)
  have b0: "audio_get (surroundings 3000000000 0) 2000 = []"
    by (simp add: f(5))
  from transcribing_guard[of "transcribing_typer False" default_params 16000 "surroundings 3000000000 3"]
  have a: "state (main_step default_params 16000 (surroundings 3000000000 3) (transcribing_typer False)) = IDLE"
    "calls (main_step default_params 16000 (surroundings 3000000000 3) (transcribing_typer False))
       = [Audio_clear, Audio_get 2000, Audio_get 2000]"
    unfolding f by simp_all
  from transcribing_guard[of "transcribing_typer True" default_params 16000 "surroundings 3000000000 0"]
  have b: "state (main_step default_params 16000 (surroundings 3000000000 0) (transcribing_typer True)) = IDLE"
    "calls (main_step default_params 16000 (surroundings 3000000000 0) (transcribing_typer True))
       = [Audio_clear, Audio_get 2000, Audio_get 2000]"
    unfolding f b0 by simp_all
  from transcribing_guard[of "transcribing_typer True" default_params 16000 "surroundings 3000000000 3"]
  have c: "state (main_step default_params 16000 (surroundings 3000000000 3) (transcribing_typer True)) = IDLE"
    "calls (main_step default_params 16000 (surroundings 3000000000 3) (transcribing_typer True))
       = [Audio_clear, Audio_get 2000, Audio_get 2000, Transcribe [0, 0, 0], Output_type ''hello world'']"
    unfolding f by (simp_all add: numeral_3_eq_3)
  have t: "trim '' hello world '' = ''hello world''"
    by (simp add: trim_def isspace_def)
  from a b c t f(1)[of False] f(2)[of False] f(2)[of True] b3 show ?thesis
    by simp
qed


section \<open>Typing the empty text\<close>

lemma type_nonempty_runs: "text \<noteq> [] \<Longrightarrow> snd (TextOutput_type record_cmd text out []) \<noteq> []"
  by (simp add: TextOutput_type_def type_clipboard_def type_xdotool_def record_cmd_def Let_def)

text \<open>
  Claim C10. \<^verbatim>\<open>TextOutput::type\<close> with the empty string returns true and leaves the
  desktop as it is, whatever the external commands would do and whichever delivery path is
  configured: no command is run, neither the clipboard path nor the keystroke path is
  entered. On a desktop that records the commands run, nothing is recorded for the empty
  string, and something is for every other text.
\<close>

theorem type_empty_text:
  "TextOutput_type rc [] out w = (True, w) \<and>
   TextOutput_type rc [] out w = TextOutput_type rc' [] out' w \<and>
   snd (TextOutput_type record_cmd [] out []) = [] \<and>
   (text \<noteq> [] \<longrightarrow> snd (TextOutput_type record_cmd text out []) \<noteq> [])"
  using type_nonempty_runs[of "text" out]
  by (simp add: TextOutput_type_def)

lemma type_runs:
  "TextOutput_type record_cmd ''hi'' \<lparr>m_use_clipboard = False, m_type_delay_ms = 12\<rparr> [] =
     (True, [([''xdotool'', ''type'', ''--clearmodifiers'', ''--delay'', ''12'', ''--'', ''hi''], None)])"
  "TextOutput_type record_cmd ''hi'' \<lparr>m_use_clipboard = True, m_type_delay_ms = 12\<rparr> [] =
     (True, [([''xclip'', ''-selection'', ''clipboard'', ''-o''], None),
             ([''xclip'', ''-selection'', ''clipboard''], Some ''hi''),
             ([''xdotool'', ''getactivewindow''], None),
             ([''xdotool'', ''key'', ''--clearmodifiers'', ''ctrl+v''], None),
             ([''xclip'', ''-selection'', ''clipboard''], Some [])])"
  by code_simp+

theorem type_empty_text_witness:
  "TextOutput_type record_cmd [] \<lparr>m_use_clipboard = True, m_type_delay_ms = 12\<rparr> [] = (True, []) \<and>
   TextOutput_type record_cmd [] \<lparr>m_use_clipboard = False, m_type_delay_ms = 12\<rparr> [] = (True, []) \<and>
   ''hi'' \<noteq> [] \<and>
   snd (TextOutput_type record_cmd ''hi'' \<lparr>m_use_clipboard = True, m_type_delay_ms = 12\<rparr> []) \<noteq> [] \<and>
   TextOutput_type record_cmd ''hi'' \<lparr>m_use_clipboard = False, m_type_delay_ms = 12\<rparr> [] =
     (True, [([''xdotool'', ''type'', ''--clearmodifiers'', ''--delay'', ''12'', ''--'', ''hi''], None)])"
proof -
  have ne: "''hi'' \<noteq> []" by simp
  from type_empty_text[of record_cmd "\<lparr>m_use_clipboard = True, m_type_delay_ms = 12\<rparr>" "[]" record_cmd
      "\<lparr>m_use_clipboard = True, m_type_delay_ms = 12\<rparr>" "''hi''"]
  have a: "TextOutput_type record_cmd [] \<lparr>m_use_clipboard = True, m_type_delay_ms = 12\<rparr> [] = (True, [])"
    and b: "snd (TextOutput_type record_cmd ''hi'' \<lparr>m_use_clipboard = True, m_type_delay_ms = 12\<rparr> []) \<noteq> []"
    using ne by blast+
  from type_empty_text[of record_cmd "\<lparr>m_use_clipboard = False, m_type_delay_ms = 12\<rparr>" "[]" record_cmd
      "\<lparr>m_use_clipboard = False, m_type_delay_ms = 12\<rparr>" "''hi''"]
  have c: "TextOutput_type record_cmd [] \<lparr>m_use_clipboard = False, m_type_delay_ms = 12\<rparr> [] = (True, [])"
    by blast
  from a b c ne type_runs(1) show ?thesis by blast
qed

end
